theory Spec2Isabelle
  imports Main "HOL-Library.Multiset" "HOL-Library.Signed_Division"
begin

section \<open>Data model of the graph-coloring solver (main.go)\<close>

text \<open>
  Go's \<open>int\<close> is modelled as \<open>int\<close>: gene values and adjacency entries are copied and
  compared, never multiplied, and every counter of the program is bounded by the size of
  a slice held in memory, so no 64-bit wrap-around is reachable. Slice lengths and loop
  counters that run upwards from 0 are \<open>nat\<close>.

  A run-time panic of Go is a value of \<open>panic\<close>; a function that may panic returns
  \<open>panic + 'a\<close> with \<open>Inl\<close> the panic.
\<close>

datatype panic =
    IndexOutOfRange       \<comment> \<open>slice index out of range\<close>
  | InvalidIntnArgument   \<comment> \<open>\<open>rand.Intn(n)\<close> with \<open>n <= 0\<close>\<close>
  | MakeSliceLenOutOfRange \<comment> \<open>\<open>make([]T, n)\<close> with \<open>n < 0\<close>\<close>

text \<open>\<open>xs[i]\<close> with Go's bounds check; the index is a signed \<open>int\<close>.\<close>

definition index :: "'a list \<Rightarrow> int \<Rightarrow> panic + 'a" where
  "index xs i = (if 0 \<le> i \<and> i < int (length xs) then Inr (xs ! nat i) else Inl IndexOutOfRange)"

record Graph =
  AdjecencyList :: "int list list"
  Colors :: "int list"

definition NodeCount :: "Graph \<Rightarrow> nat" where
  "NodeCount g = length (AdjecencyList g)"

type_synonym Chromosome = "int list"
type_synonym Population = "Chromosome list"

section \<open>CalculateFitness\<close>

text \<open>
  The inner loop \<open>for _, j := range AdjecencyList[i]\<close>: the comparison reads
  \<open>chromosome[i]\<close> first, then \<open>chromosome[j]\<close>, each with its bounds check.
\<close>

fun fitness_row :: "Chromosome \<Rightarrow> int \<Rightarrow> int list \<Rightarrow> int \<Rightarrow> panic + int" where
  "fitness_row chromosome i [] score = Inr score"
| "fitness_row chromosome i (j # js) score =
     (case index chromosome i of
        Inl e \<Rightarrow> Inl e
      | Inr ci \<Rightarrow>
          (case index chromosome j of
             Inl e \<Rightarrow> Inl e
           | Inr cj \<Rightarrow> fitness_row chromosome i js (if ci = cj then score + 1 else score)))"

text \<open>The outer loop \<open>for i := 0; i < NodeCount(); i++\<close>.\<close>

function fitness_loop :: "Graph \<Rightarrow> Chromosome \<Rightarrow> nat \<Rightarrow> int \<Rightarrow> panic + int" where
  "fitness_loop g chromosome i score =
     (if i < NodeCount g then
        (case fitness_row chromosome (int i) (AdjecencyList g ! i) score of
           Inl e \<Rightarrow> Inl e
         | Inr score' \<Rightarrow> fitness_loop g chromosome (Suc i) score')
      else Inr score)"
  by pat_completeness auto
termination
  by (relation "measure (\<lambda>(g, chromosome, i, score). NodeCount g - i)") auto

declare fitness_loop.simps [simp del]

text \<open>\<open>return score / 2\<close>: Go's integer division truncates towards zero (\<open>sdiv\<close>).\<close>

definition CalculateFitness :: "Graph \<Rightarrow> Chromosome \<Rightarrow> panic + int" where
  "CalculateFitness g chromosome =
     (case fitness_loop g chromosome 0 0 of
        Inl e \<Rightarrow> Inl e
      | Inr score \<Rightarrow> Inr (score sdiv 2))"

subsection \<open>The specification's reading of the conflict count\<close>

text \<open>
  The stored adjacency pairs \<open>(i, j)\<close>, one per stored entry (so with multiplicity), in
  the order of the scan.
\<close>

definition stored_pairs :: "Graph \<Rightarrow> (int \<times> int) list" where
  "stored_pairs g =
     concat (map (\<lambda>i. map (\<lambda>j. (int i, j)) (AdjecencyList g ! i)) [0..<NodeCount g])"

definition same_color :: "Chromosome \<Rightarrow> int \<times> int \<Rightarrow> bool" where
  "same_color chromosome p = (chromosome ! nat (fst p) = chromosome ! nat (snd p))"

definition matching_pairs :: "Graph \<Rightarrow> Chromosome \<Rightarrow> (int \<times> int) list" where
  "matching_pairs g chromosome = filter (same_color chromosome) (stored_pairs g)"

text \<open>The graph invariant of the data model: every adjacency entry is a node index.\<close>

definition adjacency_in_range :: "Graph \<Rightarrow> bool" where
  "adjacency_in_range g =
     list_all (list_all (\<lambda>j. 0 \<le> j \<and> j < int (NodeCount g))) (AdjecencyList g)"

definition no_edges :: "Graph \<Rightarrow> bool" where
  "no_edges g = list_all (\<lambda>row. row = []) (AdjecencyList g)"

text \<open>The stored pairs of the rows \<open>i, i + 1, ...\<close>: what the outer loop still has to scan.\<close>

definition pairs_from :: "Graph \<Rightarrow> nat \<Rightarrow> (int \<times> int) list" where
  "pairs_from g i =
     concat (map (\<lambda>i. map (\<lambda>j. (int i, j)) (AdjecencyList g ! i)) [i..<NodeCount g])"

section \<open>The random source\<close>

text \<open>
  \<open>math/rand\<close> is one process-wide generator. It is modelled as the infinite sequence
  of raw values it is going to produce, passed explicitly and returned advanced; every
  theorem below holds for every such sequence, so for every seed.
\<close>

type_synonym rng = "nat \<Rightarrow> nat"

definition rng_drop :: "nat \<Rightarrow> rng \<Rightarrow> rng" where
  "rng_drop n rs = (\<lambda>k. rs (k + n))"

text \<open>
  \<open>rand.Intn(n)\<close> panics for \<open>n <= 0\<close> and otherwise returns a value of \<open>[0, n)\<close>; each
  value of the range is reached by some raw value.
\<close>

definition Intn :: "int \<Rightarrow> rng \<Rightarrow> panic + (int \<times> rng)" where
  "Intn n rs =
     (if n \<le> 0 then Inl InvalidIntnArgument else Inr (int (rs 0) mod n, rng_drop 1 rs))"

text \<open>
  The test \<open>rand.Float32() < mutationProb\<close> of \<open>Mutate\<close>, with
  \<open>mutationProb = 1.0 / float32(len)\<close>. Floating point is abstracted: the draw is the
  fraction \<open>r / 2^24\<close> with \<open>r < 2^24\<close>, a value of \<open>[0, 1)\<close>, and it is compared with
  the exact \<open>1 / len\<close>. For \<open>len = 1\<close> the test always succeeds, as in Go.
\<close>

definition Float32_below_inverse :: "nat \<Rightarrow> rng \<Rightarrow> bool \<times> rng" where
  "Float32_below_inverse len rs = ((rs 0 mod 2 ^ 24) * len < 2 ^ 24, rng_drop 1 rs)"

section \<open>The solver and its operators\<close>

text \<open>
  The unexported field \<open>population\<close> of \<open>GraphColoringSolver\<close> is never read or
  written (\<open>Solve\<close> works on a local variable), so the record has the two exported fields.
\<close>

record GraphColoringSolver =
  Graph :: Graph
  NumColors :: int

record scoredChromosome =
  chromosome :: Chromosome
  score :: int

record GraphColoringSolution =
  Coloring :: Chromosome
  Score :: int

subsection \<open>RandomPopulation\<close>

text \<open>
  Both slices are filled front to back, one element per iteration, so each loop is the
  recursion that produces the elements in order; the argument counts the iterations left.
\<close>

fun random_chromosome :: "int \<Rightarrow> nat \<Rightarrow> rng \<Rightarrow> panic + (Chromosome \<times> rng)" where
  "random_chromosome numColors 0 rs = Inr ([], rs)"
| "random_chromosome numColors (Suc n) rs =
     (case Intn numColors rs of
        Inl e \<Rightarrow> Inl e
      | Inr (c, rs') \<Rightarrow>
          (case random_chromosome numColors n rs' of
             Inl e \<Rightarrow> Inl e
           | Inr (chr, rs'') \<Rightarrow> Inr (c # chr, rs'')))"

fun random_population_loop ::
  "int \<Rightarrow> nat \<Rightarrow> nat \<Rightarrow> rng \<Rightarrow> panic + (Population \<times> rng)" where
  "random_population_loop numColors nodeCount 0 rs = Inr ([], rs)"
| "random_population_loop numColors nodeCount (Suc n) rs =
     (case random_chromosome numColors nodeCount rs of
        Inl e \<Rightarrow> Inl e
      | Inr (chr, rs') \<Rightarrow>
          (case random_population_loop numColors nodeCount n rs' of
             Inl e \<Rightarrow> Inl e
           | Inr (pop, rs'') \<Rightarrow> Inr (chr # pop, rs'')))"

definition RandomPopulation ::
  "GraphColoringSolver \<Rightarrow> int \<Rightarrow> rng \<Rightarrow> panic + (Population \<times> rng)" where
  "RandomPopulation solver popSize rs =
     (if popSize < 0 then Inl MakeSliceLenOutOfRange
      else random_population_loop (NumColors solver) (NodeCount (Graph solver)) (nat popSize) rs)"

subsection \<open>SelectParents\<close>

text \<open>
  The retry loop \<open>for j := 0; j < 10; j++\<close> of one parent slot; the first argument is the
  number of attempts left, \<open>parentIndex\<close> the variable declared before the loop (0 at
  first, then the last draw).
\<close>

fun draw_parent ::
  "nat \<Rightarrow> nat \<Rightarrow> int set \<Rightarrow> int \<Rightarrow> rng \<Rightarrow> panic + (int \<times> int set \<times> rng)" where
  "draw_parent 0 popSize usedParents parentIndex rs = Inr (parentIndex, usedParents, rs)"
| "draw_parent (Suc n) popSize usedParents parentIndex rs =
     (case Intn (int popSize) rs of
        Inl e \<Rightarrow> Inl e
      | Inr (drawn, rs') \<Rightarrow>
          if drawn \<notin> usedParents then Inr (drawn, insert drawn usedParents, rs')
          else draw_parent n popSize usedParents drawn rs')"

text \<open>The loop over the parent slots; the first argument is the number of slots left.\<close>

fun select_loop ::
  "nat \<Rightarrow> Population \<Rightarrow> int set \<Rightarrow> Chromosome list \<Rightarrow> rng \<Rightarrow> panic + (Chromosome list \<times> rng)"
  where
  "select_loop 0 population usedParents parents rs = Inr (parents, rs)"
| "select_loop (Suc n) population usedParents parents rs =
     (case draw_parent 10 (length population) usedParents 0 rs of
        Inl e \<Rightarrow> Inl e
      | Inr (parentIndex, usedParents', rs') \<Rightarrow>
          (case index population parentIndex of
             Inl e \<Rightarrow> Inl e
           | Inr p \<Rightarrow> select_loop n population usedParents' (parents @ [p]) rs'))"

definition SelectParents :: "Population \<Rightarrow> rng \<Rightarrow> panic + (Chromosome list \<times> rng)" where
  "SelectParents population rs = select_loop 2 population {} [] rs"

subsection \<open>Crossover\<close>

text \<open>The inner loop \<open>for i := currentIndex; i < nextIndex; i++\<close>.\<close>

function copy_block ::
  "Chromosome list \<Rightarrow> int \<Rightarrow> nat \<Rightarrow> nat \<Rightarrow> Chromosome \<Rightarrow> panic + Chromosome" where
  "copy_block parents parentIndex i nextIndex res =
     (if i < nextIndex then
        (case index parents parentIndex of
           Inl e \<Rightarrow> Inl e
         | Inr p \<Rightarrow>
             (case index p (int i) of
                Inl e \<Rightarrow> Inl e
              | Inr v \<Rightarrow> copy_block parents parentIndex (Suc i) nextIndex (res @ [v])))
      else Inr res)"
  by pat_completeness auto
termination
  by (relation "measure (\<lambda>(parents, parentIndex, i, nextIndex, res). nextIndex - i)") auto

declare copy_block.simps [simp del]

text \<open>
  The outer loop \<open>for currentIndex := 0; currentIndex < chromosomeLength; { ... }\<close> has no
  post statement: it advances by \<open>partLength\<close> only, so it need not terminate, and
  \<open>None\<close> is the run that never returns.
\<close>

partial_function (option) crossover_loop ::
  "Chromosome list \<Rightarrow> nat \<Rightarrow> nat \<Rightarrow> nat \<Rightarrow> Chromosome \<Rightarrow> rng
     \<Rightarrow> (panic + (Chromosome \<times> rng)) option" where
  "crossover_loop parents chromosomeLength partLength currentIndex res rs =
     (if currentIndex < chromosomeLength then
        (let nextIndex =
               (if chromosomeLength < currentIndex + partLength then chromosomeLength
                else currentIndex + partLength)
         in case Intn (int (length parents)) rs of
              Inl e \<Rightarrow> Some (Inl e)
            | Inr (parentIndex, rs') \<Rightarrow>
                (case copy_block parents parentIndex currentIndex nextIndex res of
                   Inl e \<Rightarrow> Some (Inl e)
                 | Inr res' \<Rightarrow>
                     crossover_loop parents chromosomeLength partLength nextIndex res' rs'))
      else Some (Inr (res, rs)))"

definition Crossover :: "Chromosome list \<Rightarrow> rng \<Rightarrow> (panic + (Chromosome \<times> rng)) option" where
  "Crossover parents rs =
     (case index parents 0 of
        Inl e \<Rightarrow> Some (Inl e)
      | Inr first \<Rightarrow>
          (let chromosomeLength = length first;
               partsCount = length parents;
               partLength = chromosomeLength div partsCount
           in crossover_loop parents chromosomeLength partLength 0 [] rs))"

text \<open>
  What the loop has yet to append when it stands at \<open>currentIndex = cur\<close> with the
  random source \<open>rs\<close>: gene \<open>i\<close> comes from the parent drawn for the block of \<open>i\<close>,
  counted from \<open>cur\<close>.
\<close>

definition drawn_blocks :: "Chromosome list \<Rightarrow> nat \<Rightarrow> rng \<Rightarrow> nat \<Rightarrow> nat \<Rightarrow> Chromosome" where
  "drawn_blocks parents partLength rs cur L =
     map (\<lambda>i. parents ! (rs ((i - cur) div partLength) mod length parents) ! i) [cur..<L]"

text \<open>
  Block-wise crossover as the specification describes it: \<open>[0, L)\<close> is cut into
  contiguous blocks of \<open>blockSize\<close> genes in order (block \<open>k\<close> holds the indices \<open>i\<close> with
  \<open>i div blockSize = k\<close>, so only the last block may be shorter), and every gene of block
  \<open>k\<close> is copied from the parent \<open>choice k\<close>. \<open>block_count\<close> is the number of blocks.
\<close>

definition blockwise_offspring ::
  "Chromosome list \<Rightarrow> nat \<Rightarrow> nat \<Rightarrow> (nat \<Rightarrow> nat) \<Rightarrow> Chromosome" where
  "blockwise_offspring parents L blockSize choice =
     map (\<lambda>i. parents ! choice (i div blockSize) ! i) [0..<L]"

definition block_count :: "nat \<Rightarrow> nat \<Rightarrow> nat" where
  "block_count L blockSize = (L + blockSize - 1) div blockSize"

text \<open>The block size of the specification, \<open>ceil(L / P)\<close>.\<close>

definition spec_block_size :: "nat \<Rightarrow> nat \<Rightarrow> nat" where
  "spec_block_size L P = (L + P - 1) div P"

text \<open>
  Every offspring the specification allows for the given parents: one per choice of a
  parent index for each block of size \<open>ceil(L / P)\<close>.
\<close>

definition spec_crossover_outcomes :: "Chromosome list \<Rightarrow> Chromosome list" where
  "spec_crossover_outcomes parents =
     (let L = length (parents ! 0); P = length parents; blockSize = spec_block_size L P
      in map (\<lambda>choices. blockwise_offspring parents L blockSize (\<lambda>k. choices ! k))
           (List.n_lists (block_count L blockSize) [0..<P]))"

subsection \<open>Mutate\<close>

text \<open>\<open>child\<close> is updated in place and returned; the model returns the updated list.\<close>

function mutate_loop :: "int \<Rightarrow> Chromosome \<Rightarrow> nat \<Rightarrow> rng \<Rightarrow> panic + (Chromosome \<times> rng)" where
  "mutate_loop numColors child i rs =
     (if i < length child then
        (case Float32_below_inverse (length child) rs of
           (True, rs') \<Rightarrow>
             (case Intn numColors rs' of
                Inl e \<Rightarrow> Inl e
              | Inr (c, rs'') \<Rightarrow> mutate_loop numColors (child[i := c]) (Suc i) rs'')
         | (False, rs') \<Rightarrow> mutate_loop numColors child (Suc i) rs')
      else Inr (child, rs))"
  by pat_completeness auto
termination
  by (relation "measure (\<lambda>(numColors, child, i, rs). length child - i)") auto

declare mutate_loop.simps [simp del]

definition Mutate :: "GraphColoringSolver \<Rightarrow> Chromosome \<Rightarrow> rng \<Rightarrow> panic + (Chromosome \<times> rng)"
  where
  "Mutate solver child rs = mutate_loop (NumColors solver) child 0 rs"

subsection \<open>Solve\<close>

text \<open>
  \<open>sort.Slice\<close> is not stable and its order among equal scores is not specified, so the
  sort is a parameter \<open>srt\<close> of the model; what the theorems need of it is stated by
  \<open>sorts_by_score\<close>: the result is a rearrangement of the input, ascending by score.
\<close>

definition sorts_by_score :: "(scoredChromosome list \<Rightarrow> scoredChromosome list) \<Rightarrow> bool" where
  "sorts_by_score srt = (\<forall>xs. mset (srt xs) = mset xs \<and> sorted (map score (srt xs)))"

text \<open>
  The loop \<open>for childIndex := 0; childIndex < childrenPopSize; childIndex++\<close>. Its body
  calls \<open>Crossover\<close>, so it returns an option too.
\<close>

function children_loop ::
  "GraphColoringSolver \<Rightarrow> Population \<Rightarrow> nat \<Rightarrow> nat \<Rightarrow> scoredChromosome list \<Rightarrow> rng
     \<Rightarrow> (panic + (scoredChromosome list \<times> rng)) option" where
  "children_loop solver population childIndex childrenPopSize scoredPopulation rs =
     (if childIndex < childrenPopSize then
        (case SelectParents population rs of
           Inl e \<Rightarrow> Some (Inl e)
         | Inr (parents, rs1) \<Rightarrow>
             (case Crossover parents rs1 of
                None \<Rightarrow> None
              | Some (Inl e) \<Rightarrow> Some (Inl e)
              | Some (Inr (child, rs2)) \<Rightarrow>
                  (case Mutate solver child rs2 of
                     Inl e \<Rightarrow> Some (Inl e)
                   | Inr (mutatedChild, rs3) \<Rightarrow>
                       (case CalculateFitness (Graph solver) mutatedChild of
                          Inl e \<Rightarrow> Some (Inl e)
                        | Inr s \<Rightarrow>
                            children_loop solver population (Suc childIndex) childrenPopSize
                              (scoredPopulation @ [\<lparr>chromosome = mutatedChild, score = s\<rparr>])
                              rs3))))
      else Some (Inr (scoredPopulation, rs)))"
  by pat_completeness auto
termination
  by (relation "measure (\<lambda>(solver, population, childIndex, childrenPopSize, scoredPopulation, rs).
                   childrenPopSize - childIndex)") auto

declare children_loop.simps [simp del]

text \<open>The loop \<open>for i := 0; i < popSize; i++ { population[i] = scoredPopulation[i].chromosome }\<close>.\<close>

function replace_loop ::
  "Population \<Rightarrow> scoredChromosome list \<Rightarrow> nat \<Rightarrow> nat \<Rightarrow> panic + Population" where
  "replace_loop population scoredPopulation i popSize =
     (if i < popSize then
        (case index scoredPopulation (int i) of
           Inl e \<Rightarrow> Inl e
         | Inr sc \<Rightarrow>
             if i < length population
             then replace_loop (population[i := chromosome sc]) scoredPopulation (Suc i) popSize
             else Inl IndexOutOfRange)
      else Inr population)"
  by pat_completeness auto
termination
  by (relation "measure (\<lambda>(population, scoredPopulation, i, popSize). popSize - i)") auto

declare replace_loop.simps [simp del]

text \<open>
  One pass of the body of the iteration loop, up to \<open>bestScore\<close>: the new population,
  the best score of the generation and the advanced random source. The progress line
  written by \<open>log.Printf\<close> is not part of the model.
\<close>

definition generation ::
  "(scoredChromosome list \<Rightarrow> scoredChromosome list) \<Rightarrow> GraphColoringSolver \<Rightarrow> nat \<Rightarrow> Population
     \<Rightarrow> rng \<Rightarrow> (panic + (Population \<times> int \<times> rng)) option" where
  "generation srt solver popSize population rs =
     (case children_loop solver population 0 (2 * popSize) [] rs of
        None \<Rightarrow> None
      | Some (Inl e) \<Rightarrow> Some (Inl e)
      | Some (Inr (scoredPopulation, rs')) \<Rightarrow>
          (let sortedPopulation = srt scoredPopulation
           in case replace_loop population sortedPopulation 0 popSize of
                Inl e \<Rightarrow> Some (Inl e)
              | Inr population' \<Rightarrow>
                  (case index sortedPopulation 0 of
                     Inl e \<Rightarrow> Some (Inl e)
                   | Inr best \<Rightarrow> Some (Inr (population', score best, rs')))))"

text \<open>
  The loop \<open>for iteration := 0; iteration < numIterations; iteration++\<close> with its
  \<open>break\<close> on \<open>bestScore == 0\<close>; it returns the population the loop leaves behind.
\<close>

function solve_loop ::
  "(scoredChromosome list \<Rightarrow> scoredChromosome list) \<Rightarrow> GraphColoringSolver \<Rightarrow> int \<Rightarrow> nat \<Rightarrow> int
     \<Rightarrow> Population \<Rightarrow> rng \<Rightarrow> (panic + (Population \<times> rng)) option" where
  "solve_loop srt solver numIterations popSize iteration population rs =
     (if iteration < numIterations then
        (case generation srt solver popSize population rs of
           None \<Rightarrow> None
         | Some (Inl e) \<Rightarrow> Some (Inl e)
         | Some (Inr (population', bestScore, rs')) \<Rightarrow>
             if bestScore = 0 then Some (Inr (population', rs'))
             else solve_loop srt solver numIterations popSize (iteration + 1) population' rs')
      else Some (Inr (population, rs)))"
  by pat_completeness auto
termination
  by (relation "measure (\<lambda>(srt, solver, numIterations, popSize, iteration, population, rs).
                   nat (numIterations - iteration))") auto

declare solve_loop.simps [simp del]

text \<open>The population at the \<open>return\<close> statement of \<open>Solve\<close>.\<close>

definition final_population ::
  "(scoredChromosome list \<Rightarrow> scoredChromosome list) \<Rightarrow> GraphColoringSolver \<Rightarrow> int \<Rightarrow> int \<Rightarrow> rng
     \<Rightarrow> (panic + (Population \<times> rng)) option" where
  "final_population srt solver numIterations popSize rs =
     (case RandomPopulation solver popSize rs of
        Inl e \<Rightarrow> Some (Inl e)
      | Inr (population, rs') \<Rightarrow>
          solve_loop srt solver numIterations (nat popSize) 0 population rs')"

definition Solve ::
  "(scoredChromosome list \<Rightarrow> scoredChromosome list) \<Rightarrow> GraphColoringSolver \<Rightarrow> int \<Rightarrow> int \<Rightarrow> rng
     \<Rightarrow> (panic + GraphColoringSolution) option" where
  "Solve srt solver numIterations popSize rs =
     (case final_population srt solver numIterations popSize rs of
        None \<Rightarrow> None
      | Some (Inl e) \<Rightarrow> Some (Inl e)
      | Some (Inr (population, rs')) \<Rightarrow>
          (case index population 0 of
             Inl e \<Rightarrow> Some (Inl e)
           | Inr best \<Rightarrow>
               (case CalculateFitness (Graph solver) best of
                  Inl e \<Rightarrow> Some (Inl e)
                | Inr s \<Rightarrow> Some (Inr \<lparr>Coloring = best, Score = s\<rparr>))))"

subsection \<open>The chromosome invariant\<close>

text \<open>
  A chromosome of the solver has one gene per node, every gene a color of
  \<open>[0, numColors)\<close>.
\<close>

definition genes_in_range :: "int \<Rightarrow> Chromosome \<Rightarrow> bool" where
  "genes_in_range numColors c = list_all (\<lambda>v. 0 \<le> v \<and> v < numColors) c"

definition valid_chromosome :: "GraphColoringSolver \<Rightarrow> Chromosome \<Rightarrow> bool" where
  "valid_chromosome solver c =
     (length c = NodeCount (Graph solver) \<and> genes_in_range (NumColors solver) c)"

section \<open>Graph files\<close>

text \<open>
  An \<open>error\<close> value of Go, as the functions of \<open>os\<close> and \<open>strconv\<close> return it; a
  returned error is not a panic.
\<close>

datatype go_error = GoError string

subsection \<open>LoadGraph\<close>

text \<open>\<open>strings.Split(s, sep)\<close> for a separator of one byte.\<close>

fun Split :: "string \<Rightarrow> char \<Rightarrow> string list" where
  "Split [] sep = [[]]"
| "Split (x # xs) sep =
     (if x = sep then [] # Split xs sep
      else (case Split xs sep of
              [] \<Rightarrow> [[x]]
            | t # ts \<Rightarrow> (x # t) # ts))"

text \<open>
  The loop over the lines. \<open>strconv.ParseInt(token, 10, 32)\<close> is the parameter
  \<open>ParseInt\<close>, returning the number or the error; \<open>g\<close> is the graph built so far.
\<close>

fun load_lines ::
  "(string \<Rightarrow> go_error + int) \<Rightarrow> Graph \<Rightarrow> string list \<Rightarrow> panic + (go_error + Graph)" where
  "load_lines ParseInt g [] = Inr (Inr g)"
| "load_lines ParseInt g (line # lines) =
     (if length line = 0 then load_lines ParseInt g lines
      else if line ! 0 = CHR ''c'' then load_lines ParseInt g lines
      else if line ! 0 = CHR ''p'' then
        (let tokens = Split line CHR '' ''
         in case index tokens 2 of
              Inl e \<Rightarrow> Inl e
            | Inr token \<Rightarrow>
                (case ParseInt token of
                   Inl err \<Rightarrow> Inr (Inl err)
                 | Inr nodeCount \<Rightarrow>
                     if nodeCount < 0 then Inl MakeSliceLenOutOfRange
                     else load_lines ParseInt
                            \<lparr>AdjecencyList = replicate (nat nodeCount) [],
                             Colors = replicate (nat nodeCount) 0\<rparr> lines))
      else if line ! 0 = CHR ''e'' then
        (let tokens = Split line CHR '' ''
         in case index tokens 1 of
              Inl e \<Rightarrow> Inl e
            | Inr token1 \<Rightarrow>
                (case ParseInt token1 of
                   Inl err \<Rightarrow> Inr (Inl err)
                 | Inr first \<Rightarrow>
                     (case index tokens 2 of
                        Inl e \<Rightarrow> Inl e
                      | Inr token2 \<Rightarrow>
                          (case ParseInt token2 of
                             Inl err \<Rightarrow> Inr (Inl err)
                           | Inr second \<Rightarrow>
                               (case index (AdjecencyList g) (first - 1) of
                                  Inl e \<Rightarrow> Inl e
                                | Inr row \<Rightarrow>
                                    load_lines ParseInt
                                      (g\<lparr>AdjecencyList :=
                                           (AdjecencyList g)[nat (first - 1) := row @ [second - 1]]\<rparr>)
                                      lines)))))
      else load_lines ParseInt g lines)"

text \<open>
  \<open>LoadGraph\<close> on the result of \<open>os.ReadFile\<close>: the bytes of the file, or the error.
  The outcome is a panic, a returned error (with no graph) or the graph.
\<close>

definition LoadGraph ::
  "(string \<Rightarrow> go_error + int) \<Rightarrow> go_error + string \<Rightarrow> panic + (go_error + Graph)" where
  "LoadGraph ParseInt file =
     (case file of
        Inl err \<Rightarrow> Inr (Inl err)
      | Inr bytes \<Rightarrow>
          load_lines ParseInt \<lparr>AdjecencyList = [], Colors = []\<rparr> (Split bytes CHR 0x0A))"

subsection \<open>SaveGraphViz\<close>

text \<open>The decimal text \<open>%d\<close> of \<open>fmt.Sprintf\<close>.\<close>

definition digit_char :: "nat \<Rightarrow> char" where
  "digit_char d = ''0123456789'' ! d"

function show_nat :: "nat \<Rightarrow> string" where
  "show_nat n =
     (if n < 10 then [digit_char n]
      else show_nat (n div 10) @ [digit_char (n mod 10)])"
  by pat_completeness auto
termination
  by (relation "measure (\<lambda>n. n)") auto

declare show_nat.simps [simp del]

definition show_int :: "int \<Rightarrow> string" where
  "show_int i = (if i < 0 then CHR ''-'' # show_nat (nat (- i)) else show_nat (nat i))"

text \<open>
  The opened file: the number of \<open>WriteString\<close> calls made so far and the strings
  written. The file system decides which calls fail: \<open>writes k\<close> is the error of call
  \<open>k\<close>, if any. A failed call leaves the strings written unchanged.
\<close>

type_synonym file_state = "nat \<times> string list"

definition WriteString ::
  "(nat \<Rightarrow> go_error option) \<Rightarrow> file_state \<Rightarrow> string \<Rightarrow> go_error option \<times> file_state" where
  "WriteString writes st s =
     (case writes (fst st) of
        None \<Rightarrow> (None, (Suc (fst st), snd st @ [s]))
      | Some err \<Rightarrow> (Some err, (Suc (fst st), snd st)))"

text \<open>The two edge loops; the first write error is returned.\<close>

fun write_edges ::
  "(nat \<Rightarrow> go_error option) \<Rightarrow> nat \<Rightarrow> int list \<Rightarrow> file_state \<Rightarrow> go_error option \<times> file_state"
  where
  "write_edges writes i [] st = (None, st)"
| "write_edges writes i (j # js) st =
     (case WriteString writes st
             (CHR 0x09 # show_int (int i) @ '' -- '' @ show_int j @ [CHR 0x0A]) of
        (Some err, st1) \<Rightarrow> (Some err, st1)
      | (None, st1) \<Rightarrow> write_edges writes i js st1)"

function write_all_edges ::
  "(nat \<Rightarrow> go_error option) \<Rightarrow> Graph \<Rightarrow> nat \<Rightarrow> file_state \<Rightarrow> go_error option \<times> file_state"
  where
  "write_all_edges writes g i st =
     (if i < NodeCount g then
        (case write_edges writes i (AdjecencyList g ! i) st of
           (Some err, st1) \<Rightarrow> (Some err, st1)
         | (None, st1) \<Rightarrow> write_all_edges writes g (Suc i) st1)
      else (None, st))"
  by pat_completeness auto
termination
  by (relation "measure (\<lambda>(writes, g, i, st). NodeCount g - i)") auto

declare write_all_edges.simps [simp del]

text \<open>
  The loop of the style lines: the error of \<open>WriteString\<close> is assigned and never tested,
  and \<open>g.Colors[i]\<close> is bounds-checked.
\<close>

function write_styles ::
  "(nat \<Rightarrow> go_error option) \<Rightarrow> Graph \<Rightarrow> nat \<Rightarrow> file_state \<Rightarrow> panic + file_state" where
  "write_styles writes g i st =
     (if i < NodeCount g then
        (case index (Colors g) (int i) of
           Inl e \<Rightarrow> Inl e
         | Inr color \<Rightarrow>
             write_styles writes g (Suc i)
               (snd (WriteString writes st
                       (CHR 0x09 # show_int (int i) @ '' [style=filled, color=''
                          @ show_int (color + 1) @ '']'' @ [CHR 0x0A]))))
      else Inr st)"
  by pat_completeness auto
termination
  by (relation "measure (\<lambda>(writes, g, i, st). NodeCount g - i)") auto

declare write_styles.simps [simp del]

text \<open>
  \<open>SaveGraphViz\<close> on the outcome \<open>opened\<close> of \<open>os.OpenFile\<close> (the error, if any): it
  returns the \<open>error\<close> result (\<open>None\<close> is \<open>nil\<close>) and the strings written.
\<close>

definition SaveGraphViz ::
  "Graph \<Rightarrow> go_error option \<Rightarrow> (nat \<Rightarrow> go_error option)
     \<Rightarrow> panic + (go_error option \<times> string list)" where
  "SaveGraphViz g opened writes =
     (case opened of
        Some err \<Rightarrow> Inr (None, [])
      | None \<Rightarrow>
          (case WriteString writes (0, [])
                  (''graph {'' @ [CHR 0x0A, CHR 0x09] @ ''node [colorscheme=accent8]''
                     @ [CHR 0x0A]) of
             (Some err, st1) \<Rightarrow> Inr (Some err, snd st1)
           | (None, st1) \<Rightarrow>
               (case write_all_edges writes g 0 st1 of
                  (Some err, st2) \<Rightarrow> Inr (Some err, snd st2)
                | (None, st2) \<Rightarrow>
                    (case write_styles writes g 0 st2 of
                       Inl e \<Rightarrow> Inl e
                     | Inr st3 \<Rightarrow>
                         (case WriteString writes st3 (''}'' @ [CHR 0x0A]) of
                            (err, st4) \<Rightarrow> Inr (err, snd st4))))))"

section \<open>Properties of CalculateFitness\<close>

lemma index_in_range: "0 \<le> i \<Longrightarrow> i < int (length xs) \<Longrightarrow> index xs i = Inr (xs ! nat i)"
  by (simp add: index_def)

lemma sdiv_two_nonneg: "0 \<le> k \<Longrightarrow> k sdiv 2 = k div (2::int)"
  by (simp add: signed_divide_int_def sgn_if)

lemma fitness_row_count:
  assumes "0 \<le> i" "i < int (length c)" "list_all (\<lambda>j. 0 \<le> j \<and> j < int (length c)) js"
  shows "fitness_row c i js s = Inr (s + int (length (filter (\<lambda>j. c ! nat i = c ! nat j) js)))"
  using assms by (induction js arbitrary: s) (simp_all add: index_in_range)

lemma pairs_from_step:
  "i < NodeCount g \<Longrightarrow>
     pairs_from g i = map (\<lambda>j. (int i, j)) (AdjecencyList g ! i) @ pairs_from g (Suc i)"
  by (simp add: pairs_from_def upt_conv_Cons)

lemma pairs_from_end: "\<not> i < NodeCount g \<Longrightarrow> pairs_from g i = []"
  by (simp add: pairs_from_def)

lemma fitness_loop_count:
  assumes "adjacency_in_range g" "length c = NodeCount g"
  shows "fitness_loop g c i s = Inr (s + int (length (filter (same_color c) (pairs_from g i))))"
proof (induction "NodeCount g - i" arbitrary: i s)
  case 0
  then have "\<not> i < NodeCount g" by simp
  then show ?case by (simp add: fitness_loop.simps pairs_from_end)
next
  case (Suc k)
  then have lt: "i < NodeCount g" by simp
  have row: "list_all (\<lambda>j. 0 \<le> j \<and> j < int (length c)) (AdjecencyList g ! i)"
    using assms lt by (simp add: adjacency_in_range_def NodeCount_def list_all_length)
  have "fitness_row c (int i) (AdjecencyList g ! i) s =
          Inr (s + int (length (filter (\<lambda>j. c ! nat (int i) = c ! nat j) (AdjecencyList g ! i))))"
    using lt assms(2) row by (intro fitness_row_count) simp_all
  moreover have "k = NodeCount g - Suc i" using Suc.hyps(2) by simp
  ultimately show ?case
    using lt Suc.hyps(1)[of "Suc i"]
    by (simp add: fitness_loop.simps[of g c i] pairs_from_step filter_map same_color_def comp_def)
qed

lemma CalculateFitness_count:
  assumes "adjacency_in_range g" "length c = NodeCount g"
  shows "CalculateFitness g c = Inr (int (length (matching_pairs g c)) div 2)"
  using fitness_loop_count[OF assms, of 0 0]
  by (simp add: CalculateFitness_def matching_pairs_def stored_pairs_def pairs_from_def
      sdiv_two_nonneg)

lemma fitness_loop_no_edges:
  assumes "no_edges g"
  shows "fitness_loop g c i s = Inr s"
proof (induction "NodeCount g - i" arbitrary: i)
  case 0
  then show ?case by (simp add: fitness_loop.simps)
next
  case (Suc k)
  then have lt: "i < NodeCount g" by simp
  then have "AdjecencyList g ! i = []"
    using assms by (simp add: no_edges_def NodeCount_def list_all_length)
  moreover have "k = NodeCount g - Suc i" using Suc.hyps(2) by simp
  ultimately show ?case using lt Suc.hyps(1)[of "Suc i"]
    by (simp add: fitness_loop.simps[of g c i])
qed

lemma CalculateFitness_no_edges: "no_edges g \<Longrightarrow> CalculateFitness g c = Inr 0"
  by (simp add: CalculateFitness_def fitness_loop_no_edges)

text \<open>
  Claim C1. On a graph whose adjacency entries are node indices and a chromosome of
  length \<open>nodeCount\<close>, \<open>CalculateFitness\<close> returns the number of stored adjacency
  pairs \<open>(i, j)\<close> with \<open>chromosome[i] == chromosome[j]\<close>, halved by integer division; on
  a graph whose adjacency lists are all empty it returns 0, whatever the chromosome.
\<close>

theorem CalculateFitness_halved_match_count:
  "(adjacency_in_range g \<and> length c = NodeCount g \<longrightarrow>
      CalculateFitness g c = Inr (int (length (matching_pairs g c)) div 2))
   \<and> (no_edges g \<longrightarrow> CalculateFitness g c = Inr 0)"
  by (simp add: CalculateFitness_count CalculateFitness_no_edges)

theorem CalculateFitness_halved_match_count_witness:
  "adjacency_in_range \<lparr>AdjecencyList = [[1, 2], [0, 2], [0, 1]], Colors = [0, 0, 0]\<rparr>
   \<and> length [0, 0, 1 :: int] = NodeCount \<lparr>AdjecencyList = [[1, 2], [0, 2], [0, 1]], Colors = [0, 0, 0]\<rparr>
   \<and> CalculateFitness \<lparr>AdjecencyList = [[1, 2], [0, 2], [0, 1]], Colors = [0, 0, 0]\<rparr> [0, 0, 1]
       = Inr 1
   \<and> no_edges \<lparr>AdjecencyList = [[], []], Colors = [0, 0]\<rparr>
   \<and> CalculateFitness \<lparr>AdjecencyList = [[], []], Colors = [0, 0]\<rparr> [0, 0] = Inr 0"
  using CalculateFitness_halved_match_count
          [of "\<lparr>AdjecencyList = [[1, 2], [0, 2], [0, 1]], Colors = [0, 0, 0]\<rparr>" "[0, 0, 1]"]
        CalculateFitness_halved_match_count
          [of "\<lparr>AdjecencyList = [[], []], Colors = [0, 0]\<rparr>" "[0, 0]"]
  by (simp add: adjacency_in_range_def no_edges_def NodeCount_def matching_pairs_def
      stored_pairs_def same_color_def upt_conv_Cons)

text \<open>
  Claim C4, as stated, fails: one stored pair with equal colors is halved to 0. Node 0
  stores the edge to node 1, both nodes have color 0, and the fitness is 0.
\<close>

theorem CalculateFitness_zero_not_proper:
  "CalculateFitness \<lparr>AdjecencyList = [[1], []], Colors = [0, 0]\<rparr> [0, 0] = Inr 0
   \<and> matching_pairs \<lparr>AdjecencyList = [[1], []], Colors = [0, 0]\<rparr> [0, 0] = [(0, 1)]"
  by (simp add: CalculateFitness_def fitness_loop.simps NodeCount_def index_def
      signed_divide_int_def matching_pairs_def stored_pairs_def same_color_def upt_conv_Cons)

text \<open>
  Claim C4, amended. On a graph whose adjacency entries are node indices and a
  chromosome of length \<open>nodeCount\<close>, if \<open>CalculateFitness\<close> returns 0 then at most one
  stored adjacency pair has equal colors; the chromosome is a proper coloring when the
  number of such pairs is even.
\<close>

theorem CalculateFitness_zero_at_most_one_match:
  assumes "adjacency_in_range g" "length c = NodeCount g" "CalculateFitness g c = Inr 0"
  shows "length (matching_pairs g c) \<le> 1
         \<and> (even (length (matching_pairs g c)) \<longrightarrow> matching_pairs g c = [])"
proof -
  have "int (length (matching_pairs g c)) div 2 = 0"
    using CalculateFitness_count[OF assms(1,2)] assms(3) by simp
  then have le: "length (matching_pairs g c) \<le> 1" by linarith
  moreover have "even (length (matching_pairs g c)) \<longrightarrow> length (matching_pairs g c) = 0"
    using le by (cases "length (matching_pairs g c)") auto
  ultimately show ?thesis by simp
qed

theorem CalculateFitness_zero_at_most_one_match_witness:
  "adjacency_in_range \<lparr>AdjecencyList = [[1], []], Colors = [0, 0]\<rparr>
   \<and> length [0, 1 :: int] = NodeCount \<lparr>AdjecencyList = [[1], []], Colors = [0, 0]\<rparr>
   \<and> CalculateFitness \<lparr>AdjecencyList = [[1], []], Colors = [0, 0]\<rparr> [0, 1] = Inr 0
   \<and> length (matching_pairs \<lparr>AdjecencyList = [[1], []], Colors = [0, 0]\<rparr> [0, 1]) \<le> 1
   \<and> even (length (matching_pairs \<lparr>AdjecencyList = [[1], []], Colors = [0, 0]\<rparr> [0, 1]))
   \<and> matching_pairs \<lparr>AdjecencyList = [[1], []], Colors = [0, 0]\<rparr> [0, 1] = []"
proof -
  have a: "adjacency_in_range \<lparr>AdjecencyList = [[1], []], Colors = [0, 0]\<rparr>"
    by (simp add: adjacency_in_range_def NodeCount_def)
  have b: "length [0, 1 :: int] = NodeCount \<lparr>AdjecencyList = [[1], []], Colors = [0, 0]\<rparr>"
    by (simp add: NodeCount_def)
  have c: "CalculateFitness \<lparr>AdjecencyList = [[1], []], Colors = [0, 0]\<rparr> [0, 1] = Inr 0"
    by (simp add: CalculateFitness_def fitness_loop.simps NodeCount_def index_def
        signed_divide_int_def)
  show ?thesis
    using a b c CalculateFitness_zero_at_most_one_match[OF a b c]
    by (simp add: matching_pairs_def stored_pairs_def same_color_def NodeCount_def upt_conv_Cons)
qed

section \<open>Properties of Crossover\<close>

lemma Intn_pos: "0 < n \<Longrightarrow> Intn (int n) rs = Inr (int (rs 0 mod n), rng_drop 1 rs)"
  by (simp add: Intn_def zmod_int)

lemma copy_block_take:
  assumes "0 \<le> pidx" "pidx < int (length parents)" "nextIndex \<le> length (parents ! nat pidx)"
  shows "copy_block parents pidx i nextIndex res
           = Inr (res @ map (\<lambda>k. parents ! nat pidx ! k) [i..<nextIndex])"
proof (induction "nextIndex - i" arbitrary: i res)
  case 0
  then show ?case by (simp add: copy_block.simps)
next
  case (Suc k)
  then have lt: "i < nextIndex" by simp
  have "k = nextIndex - Suc i" using Suc.hyps(2) by simp
  then show ?case
    using lt assms Suc.hyps(1)[of "Suc i"]
    by (simp add: copy_block.simps[of parents pidx i] index_in_range upt_conv_Cons)
qed

lemma copy_block_empty: "copy_block parents pidx i i res = Inr res"
  by (simp add: copy_block.simps)

lemma crossover_loop_stuck:
  "crossover_loop a b c d e f = Some y \<Longrightarrow> \<not> (a \<noteq> [] \<and> d < b \<and> c = 0)"
proof (rule crossover_loop.raw_induct
         [where P = "\<lambda>a b c d e f y. \<not> (a \<noteq> [] \<and> d < b \<and> c = 0)", of a b c d e f y])
  fix loop :: "Chromosome list \<Rightarrow> nat \<Rightarrow> nat \<Rightarrow> nat \<Rightarrow> Chromosome \<Rightarrow> rng
                 \<Rightarrow> (panic + (Chromosome \<times> rng)) option"
  fix a :: "Chromosome list" and b c d :: nat and e :: Chromosome and f :: rng
    and y :: "panic + (Chromosome \<times> rng)"
  assume IH: "\<And>a b c d e f y. loop a b c d e f = Some y \<Longrightarrow> \<not> (a \<noteq> [] \<and> d < b \<and> c = 0)"
  assume step: "(if d < b
        then let nextIndex = if b < d + c then b else d + c
             in case Intn (int (length a)) f of Inl e \<Rightarrow> Some (Inl e)
                | Inr (parentIndex, rs') \<Rightarrow>
                    (case copy_block a parentIndex d nextIndex e of
                      Inl e \<Rightarrow> Some (Inl e)
                    | Inr res' \<Rightarrow> loop a b c nextIndex res' rs')
        else Some (Inr (e, f))) = Some y"
  show "\<not> (a \<noteq> [] \<and> d < b \<and> c = 0)"
  proof
    assume h: "a \<noteq> [] \<and> d < b \<and> c = 0"
    then have "loop a b c d e (rng_drop 1 f) = Some y"
      using step by (simp add: Intn_pos copy_block_empty)
    from IH[OF this] h show False by simp
  qed
qed (assumption)

lemma crossover_loop_diverges:
  assumes "parents \<noteq> []" "currentIndex < chromosomeLength"
  shows "crossover_loop parents chromosomeLength 0 currentIndex res rs = None"
  using crossover_loop_stuck[of parents chromosomeLength 0 currentIndex res rs] assms
  by (cases "crossover_loop parents chromosomeLength 0 currentIndex res rs") auto

lemma rng_drop_0: "rng_drop 0 rs = rs"
  by (simp add: rng_drop_def)

lemma rng_drop_drop: "rng_drop a (rng_drop b rs) = rng_drop (a + b) rs"
  by (simp add: rng_drop_def add.assoc)

lemma rng_drop_apply: "rng_drop n rs k = rs (k + n)"
  by (simp add: rng_drop_def)

lemma div_add_block: "0 < d \<Longrightarrow> (a + d) div d = Suc (a div (d::nat))"
  using div_add_self2[of d a] by simp

lemma crossover_loop_blocks:
  assumes pl: "0 < partLength" and ne: "parents \<noteq> []"
    and len: "\<forall>p\<in>set parents. length p = L"
  shows "cur \<le> L \<Longrightarrow> crossover_loop parents L partLength cur res rs =
           Some (Inr (res @ drawn_blocks parents partLength rs cur L,
                      rng_drop ((L - cur + partLength - 1) div partLength) rs))"
proof (induction "L - cur" arbitrary: cur res rs rule: less_induct)
  case less
  define P where "P = length parents"
  have Ppos: "0 < P" using ne by (simp add: P_def)
  show ?case
  proof (cases "cur < L")
    case False
    then have "cur = L" using less.prems by simp
    then show ?thesis using pl
      by (simp add: crossover_loop.simps[of parents L partLength L] drawn_blocks_def rng_drop_0)
  next
    case True
    define pidx where "pidx = rs 0 mod P"
    have pidx_lt: "pidx < P" using Ppos by (simp add: pidx_def)
    have plen: "length (parents ! pidx) = L" using len pidx_lt by (simp add: P_def)
    define nxt where "nxt = (if L < cur + partLength then L else cur + partLength)"
    have nxt_le: "nxt \<le> L" and nxt_gt: "cur < nxt" using True pl by (auto simp: nxt_def)
    have cb: "copy_block parents (int pidx) cur nxt res
                = Inr (res @ map (\<lambda>k. parents ! pidx ! k) [cur..<nxt])"
      using copy_block_take[of "int pidx" parents nxt cur res] pidx_lt plen nxt_le
      by (simp add: P_def)
    have IH: "crossover_loop parents L partLength nxt (res @ map (\<lambda>k. parents ! pidx ! k) [cur..<nxt]) (rng_drop 1 rs)
            = Some (Inr ((res @ map (\<lambda>k. parents ! pidx ! k) [cur..<nxt])
                          @ drawn_blocks parents partLength (rng_drop 1 rs) nxt L,
                      rng_drop ((L - nxt + partLength - 1) div partLength) (rng_drop 1 rs)))"
      using less.hyps[of nxt] nxt_le nxt_gt True by simp
    have step: "crossover_loop parents L partLength cur res rs
            = crossover_loop parents L partLength nxt (res @ map (\<lambda>k. parents ! pidx ! k) [cur..<nxt]) (rng_drop 1 rs)"
      using True Ppos cb
      by (subst crossover_loop.simps) (simp add: Intn_pos P_def[symmetric] pidx_def[symmetric] nxt_def[symmetric] Let_def)
    have first: "map (\<lambda>k. parents ! pidx ! k) [cur..<nxt]
                   = map (\<lambda>i. parents ! (rs ((i - cur) div partLength) mod P) ! i) [cur..<nxt]"
      by (rule map_cong) (auto simp: nxt_def pidx_def split: if_splits)
    have rest: "drawn_blocks parents partLength (rng_drop 1 rs) nxt L
                   = map (\<lambda>i. parents ! (rs ((i - cur) div partLength) mod P) ! i) [nxt..<L]"
    proof (cases "L < cur + partLength")
      case True
      then show ?thesis by (simp add: nxt_def drawn_blocks_def)
    next
      case False
      then have n: "nxt = cur + partLength" by (simp add: nxt_def)
      have "(i - cur) div partLength = Suc ((i - nxt) div partLength)" if "nxt \<le> i" for i
      proof -
        have "i - cur = (i - nxt) + partLength" using that n by simp
        then show ?thesis using pl by (simp add: div_add_block)
      qed
      then show ?thesis
        unfolding drawn_blocks_def P_def[symmetric]
        by (intro map_cong) (simp_all add: rng_drop_apply)
    qed
    have split: "[cur..<L] = [cur..<nxt] @ [nxt..<L]"
      using nxt_le nxt_gt by (metis less_imp_le_nat upt_add_eq_append le_Suc_ex)
    have cnt: "(L - cur + partLength - 1) div partLength
                 = (L - nxt + partLength - 1) div partLength + 1"
    proof (cases "L < cur + partLength")
      case True
      then have "nxt = L" by (simp add: nxt_def)
      moreover have "(L - cur + partLength - 1) div partLength = 1"
      proof -
        have e: "L - cur + partLength - 1 = (L - cur - 1) + partLength"
          using \<open>cur < L\<close> by simp
        have "L - cur - 1 < partLength" using True \<open>cur < L\<close> by arith
        then show ?thesis unfolding e div_add_block[OF pl] by simp
      qed
      ultimately show ?thesis using pl by simp
    next
      case False
      then have n: "nxt = cur + partLength" by (simp add: nxt_def)
      have e: "L - cur + partLength - 1 = (L - nxt + partLength - 1) + partLength"
        using False n pl by simp
      show ?thesis unfolding e div_add_block[OF pl] by simp
    qed
    have fin_rng: "rng_drop ((L - nxt + partLength - 1) div partLength) (rng_drop 1 rs)
                     = rng_drop ((L - cur + partLength - 1) div partLength) rs"
      by (simp only: rng_drop_drop cnt)
    have fin_res: "(res @ map (\<lambda>k. parents ! pidx ! k) [cur..<nxt])
                     @ drawn_blocks parents partLength (rng_drop 1 rs) nxt L
                   = res @ drawn_blocks parents partLength rs cur L"
      unfolding rest first by (simp add: drawn_blocks_def split P_def)
    show ?thesis
      unfolding step IH fin_rng fin_res by (rule refl)
  qed
qed

lemma Crossover_blocks:
  assumes "parents \<noteq> []" "\<forall>p\<in>set parents. length p = L" "length parents \<le> L"
  shows "Crossover parents rs =
           Some (Inr (blockwise_offspring parents L (L div length parents)
                        (\<lambda>k. rs k mod length parents),
                      rng_drop (block_count L (L div length parents)) rs))"
proof -
  have P: "0 < length parents" using assms(1) by simp
  have pl: "0 < L div length parents" using assms(3) P by (simp add: div_greater_zero_iff)
  have first: "length (parents ! 0) = L" using assms(1,2) by (simp add: nth_mem)
  have "crossover_loop parents L (L div length parents) 0 [] rs =
          Some (Inr ([] @ drawn_blocks parents (L div length parents) rs 0 L,
                     rng_drop ((L - 0 + L div length parents - 1) div (L div length parents)) rs))"
    using crossover_loop_blocks[OF pl assms(1,2), of 0 "[]" rs] by simp
  then show ?thesis
    using P first
    by (simp add: Crossover_def index_def Let_def drawn_blocks_def blockwise_offspring_def
        block_count_def)
qed

lemma Crossover_empty_genome:
  assumes "parents \<noteq> []" "length (parents ! 0) = 0"
  shows "Crossover parents rs = Some (Inr ([], rs))"
  using assms by (simp add: Crossover_def index_def crossover_loop.simps)

lemma Crossover_diverges:
  assumes "0 < length (parents ! 0)" "length (parents ! 0) < length parents"
  shows "Crossover parents rs = None"
proof -
  have "parents \<noteq> []" using assms by auto
  then show ?thesis using assms
    by (simp add: Crossover_def index_def crossover_loop_diverges)
qed

text \<open>
  Claim C2, as stated, fails: the block size of the code is \<open>L / P\<close> rounded down, not
  up. Two parents of length 5 give blocks of 2, 2 and 1 genes; with the draws 0, 1, 0 the
  offspring changes parent after two genes, which no choice of parents for blocks of
  \<open>ceil(5 / 2) = 3\<close> genes produces.
\<close>

theorem Crossover_floor_blocks_not_ceil:
  "Crossover [[0, 0, 0, 0, 0], [1, 1, 1, 1, 1]] (\<lambda>k. k)
       = Some (Inr ([0, 0, 1, 1, 0], rng_drop 3 (\<lambda>k. k)))
   \<and> [0, 0, 1, 1, 0] \<notin> set (spec_crossover_outcomes [[0, 0, 0, 0, 0], [1, 1, 1, 1, 1]])"
proof -
  have off: "blockwise_offspring [[0, 0, 0, 0, 0], [1, 1, 1, 1, 1]] 5 (5 div 2) (\<lambda>k. k mod 2)
               = [0, 0, 1, 1, 0]"
    by code_simp
  have cnt: "block_count 5 (5 div 2) = 3"
    by code_simp
  have len: "length [[0, 0, 0, 0, 0], [1, 1, 1, 1, 1 :: int]] = 2"
    by simp
  have "Crossover [[0, 0, 0, 0, 0], [1, 1, 1, 1, 1]] (\<lambda>k. k)
       = Some (Inr (blockwise_offspring [[0, 0, 0, 0, 0], [1, 1, 1, 1, 1]] 5 (5 div 2)
                      (\<lambda>k. k mod 2),
                    rng_drop (block_count 5 (5 div 2)) (\<lambda>k. k)))"
    by (rule Crossover_blocks[of "[[0, 0, 0, 0, 0], [1, 1, 1, 1, 1]]" 5 "\<lambda>k. k", unfolded len])
       simp_all
  then have "Crossover [[0, 0, 0, 0, 0], [1, 1, 1, 1, 1]] (\<lambda>k. k)
       = Some (Inr ([0, 0, 1, 1, 0], rng_drop 3 (\<lambda>k. k)))"
    unfolding off cnt .
  moreover have "spec_crossover_outcomes [[0, 0, 0, 0, 0], [1, 1, 1, 1, 1]]
     = [[0, 0, 0, 0, 0], [1, 1, 1, 0, 0], [0, 0, 0, 1, 1], [1, 1, 1, 1, 1]]"
    by code_simp
  ultimately show ?thesis by simp
qed

text \<open>
  Claim C2, amended. For \<open>P \<ge> 1\<close> parents of equal length \<open>L \<ge> P\<close>, \<open>Crossover\<close>
  returns the offspring built block by block from contiguous blocks of \<open>floor(L / P)\<close>
  genes in order (only the last block may be shorter): it makes one \<open>rand.Intn(P)\<close> draw
  per block, the \<open>k\<close>-th draw choosing the parent whose block \<open>k\<close> is copied verbatim.
\<close>

theorem Crossover_floor_blocks:
  assumes "parents \<noteq> []" "\<forall>p\<in>set parents. length p = L" "length parents \<le> L"
  shows "Crossover parents rs =
           Some (Inr (blockwise_offspring parents L (L div length parents)
                        (\<lambda>k. rs k mod length parents),
                      rng_drop (block_count L (L div length parents)) rs))"
  using assms by (rule Crossover_blocks)

theorem Crossover_floor_blocks_witness:
  "[[1, 2, 3, 4], [5, 6, 7, 8 :: int]] \<noteq> []
   \<and> list_all (\<lambda>p. length p = 4) [[1, 2, 3, 4], [5, 6, 7, 8 :: int]]
   \<and> length [[1, 2, 3, 4], [5, 6, 7, 8 :: int]] \<le> 4
   \<and> Crossover [[1, 2, 3, 4], [5, 6, 7, 8]] (\<lambda>k. k)
        = Some (Inr ([1, 2, 7, 8], rng_drop 2 (\<lambda>k. k)))"
proof -
  have len: "length [[1, 2, 3, 4], [5, 6, 7, 8 :: int]] = 2"
    by simp
  have off: "blockwise_offspring [[1, 2, 3, 4], [5, 6, 7, 8]] 4 (4 div 2) (\<lambda>k. k mod 2)
               = [1, 2, 7, 8]"
    by code_simp
  have cnt: "block_count 4 (4 div 2) = 2"
    by code_simp
  have "Crossover [[1, 2, 3, 4], [5, 6, 7, 8]] (\<lambda>k. k)
       = Some (Inr (blockwise_offspring [[1, 2, 3, 4], [5, 6, 7, 8]] 4 (4 div 2) (\<lambda>k. k mod 2),
                    rng_drop (block_count 4 (4 div 2)) (\<lambda>k. k)))"
    by (rule Crossover_floor_blocks[of "[[1, 2, 3, 4], [5, 6, 7, 8]]" 4 "\<lambda>k. k", unfolded len])
       simp_all
  then show ?thesis unfolding off cnt by simp
qed

text \<open>
  Claim C3. With two parents of length 1 the step \<open>partLength = 1 / 2\<close> is 0, the loop
  never advances, and \<open>Crossover\<close> does not return, whatever the random source.
\<close>

theorem Crossover_hangs_on_short_parents: "Crossover [[0], [1]] rs = None"
  by (simp add: Crossover_diverges)

section \<open>Properties of SelectParents\<close>

lemma draw_parent_fresh:
  assumes "0 < n" "0 < m"
  shows "draw_parent m n {} cur rs = Inr (int (rs 0 mod n), {int (rs 0 mod n)}, rng_drop 1 rs)"
  using assms by (cases m) (simp_all add: Intn_pos)

lemma draw_parent_retry:
  assumes n: "0 < n"
  shows "0 < m \<Longrightarrow>
         \<exists>k<m. draw_parent m n {u} cur rs
                  = Inr (int (rs k mod n), insert (int (rs k mod n)) {u}, rng_drop (Suc k) rs)
              \<and> (\<forall>j<k. int (rs j mod n) = u)
              \<and> (int (rs k mod n) = u \<longrightarrow> Suc k = m)"
proof (induction m arbitrary: cur rs)
  case 0
  then show ?case by simp
next
  case (Suc m)
  note IH = Suc.IH
  show ?case
  proof (cases "int (rs 0 mod n) = u")
    case False
    then have "draw_parent (Suc m) n {u} cur rs
                 = Inr (int (rs 0 mod n), insert (int (rs 0 mod n)) {u}, rng_drop (Suc 0) rs)"
      using n by (simp add: Intn_pos)
    with False show ?thesis by (intro exI[of _ 0]) simp
  next
    case True
    note hit = this
    have step: "draw_parent (Suc m) n {u} cur rs = draw_parent m n {u} u (rng_drop 1 rs)"
      using n hit by (simp add: Intn_pos)
    show ?thesis
    proof (cases "m = 0")
      case True
      then have "draw_parent (Suc m) n {u} cur rs
                 = Inr (int (rs 0 mod n), insert (int (rs 0 mod n)) {u}, rng_drop (Suc 0) rs)"
        unfolding step using hit by simp
      with True show ?thesis by (intro exI[of _ 0]) simp
    next
      case False
      then have "0 < m" by simp
      from IH[OF this, of u "rng_drop 1 rs"]
      obtain k where k: "k < m"
        and res: "draw_parent m n {u} u (rng_drop 1 rs)
                   = Inr (int (rng_drop 1 rs k mod n), insert (int (rng_drop 1 rs k mod n)) {u},
                          rng_drop (Suc k) (rng_drop 1 rs))"
        and coll: "\<forall>j<k. int (rng_drop 1 rs j mod n) = u"
        and last: "int (rng_drop 1 rs k mod n) = u \<longrightarrow> Suc k = m"
        by blast
      have c: "\<forall>j<Suc k. int (rs j mod n) = u"
      proof (intro allI impI)
        fix j assume "j < Suc k"
        then show "int (rs j mod n) = u"
          using hit coll by (cases j) (simp_all add: rng_drop_apply)
      qed
      have r: "draw_parent (Suc m) n {u} cur rs
                 = Inr (int (rs (Suc k) mod n), insert (int (rs (Suc k) mod n)) {u},
                        rng_drop (Suc (Suc k)) rs)"
        unfolding step res by (simp add: rng_drop_apply rng_drop_drop)
      have l: "int (rs (Suc k) mod n) = u \<longrightarrow> Suc (Suc k) = Suc m"
        using last by (simp add: rng_drop_apply)
      show ?thesis
        using k r c l by (intro exI[of _ "Suc k"]) blast
    qed
  qed
qed

lemma SelectParents_draws:
  assumes "population \<noteq> []"
  shows "\<exists>k. 1 \<le> k \<and> k \<le> 10
           \<and> SelectParents population rs
               = Inr ([population ! (rs 0 mod length population),
                       population ! (rs k mod length population)], rng_drop (Suc k) rs)
           \<and> (\<forall>j. 1 \<le> j \<and> j < k \<longrightarrow> rs j mod length population = rs 0 mod length population)
           \<and> (rs k mod length population = rs 0 mod length population \<longrightarrow> k = 10)"
proof -
  define n where "n = length population"
  have n: "0 < n" using assms by (simp add: n_def)
  define u where "u = int (rs 0 mod n)"
  have first: "draw_parent 10 n {} 0 rs = Inr (u, {u}, rng_drop 1 rs)"
    using draw_parent_fresh[OF n, of 10 0 rs] by (simp add: u_def)
  have idx: "index population (int (i mod n)) = Inr (population ! (i mod n))" for i
    using n by (simp add: index_def n_def)
  obtain k where k: "k < 10"
    and res: "draw_parent 10 n {u} 0 (rng_drop 1 rs)
                = Inr (int (rng_drop 1 rs k mod n), insert (int (rng_drop 1 rs k mod n)) {u},
                       rng_drop (Suc k) (rng_drop 1 rs))"
    and coll: "\<forall>j<k. int (rng_drop 1 rs j mod n) = u"
    and last: "int (rng_drop 1 rs k mod n) = u \<longrightarrow> Suc k = 10"
    using draw_parent_retry[OF n, of 10 u 0 "rng_drop 1 rs"] by auto
  have sel: "SelectParents population rs
          = Inr ([population ! (rs 0 mod n), population ! (rs (Suc k) mod n)],
                 rng_drop (Suc (Suc k)) rs)"
    unfolding SelectParents_def numeral_2_eq_2
    using first res idx
    by (simp add: n_def[symmetric] u_def rng_drop_apply rng_drop_drop)
  have "\<forall>j. 1 \<le> j \<and> j < Suc k \<longrightarrow> rs j mod n = rs 0 mod n"
  proof (intro allI impI)
    fix j assume j: "1 \<le> j \<and> j < Suc k"
    then obtain j' where "j = Suc j'" "j' < k" by (cases j) auto
    then show "rs j mod n = rs 0 mod n" using coll by (simp add: rng_drop_apply u_def)
  qed
  moreover have "rs (Suc k) mod n = rs 0 mod n \<longrightarrow> Suc k = 10"
    using last by (simp add: rng_drop_apply u_def)
  ultimately show ?thesis
    using k sel by (intro exI[of _ "Suc k"]) (simp add: n_def)
qed

lemma SelectParents_single:
  assumes "length population = 1"
  shows "SelectParents population rs = Inr ([population ! 0, population ! 0], rng_drop 11 rs)"
proof -
  have ne: "population \<noteq> []" using assms by auto
  from SelectParents_draws[OF ne, of rs] obtain k where
    "SelectParents population rs
               = Inr ([population ! (rs 0 mod length population),
                       population ! (rs k mod length population)], rng_drop (Suc k) rs)"
    "rs k mod length population = rs 0 mod length population \<longrightarrow> k = 10"
    by blast
  then show ?thesis using assms by simp
qed

text \<open>
  Claim C5. On a non-empty population \<open>SelectParents\<close> returns, without a panic,
  exactly two chromosomes taken at drawn indices. The first slot keeps its first draw
  (draw 0); the second slot draws again, at most 10 times (draws 1 to \<open>k\<close>, \<open>k \<le> 10\<close>),
  as long as the draw repeats the first index, and keeps its last draw: a fresh index, or
  after 10 collisions the duplicate. On a population of size 1 the result is the one
  chromosome twice, after all 11 draws.
\<close>

theorem SelectParents_two_parents:
  assumes "population \<noteq> []"
  shows "(\<exists>k. 1 \<le> k \<and> k \<le> 10
           \<and> SelectParents population rs
               = Inr ([population ! (rs 0 mod length population),
                       population ! (rs k mod length population)], rng_drop (Suc k) rs)
           \<and> (\<forall>j. 1 \<le> j \<and> j < k \<longrightarrow> rs j mod length population = rs 0 mod length population)
           \<and> (rs k mod length population = rs 0 mod length population \<longrightarrow> k = 10))
         \<and> (length population = 1 \<longrightarrow>
               SelectParents population rs
                 = Inr ([population ! 0, population ! 0], rng_drop 11 rs))"
  using SelectParents_draws[OF assms, of rs] SelectParents_single[of population rs]
  by blast

theorem SelectParents_two_parents_witness:
  "[[0, 1], [1, 0 :: int]] \<noteq> []
   \<and> SelectParents [[0, 1], [1, 0]] (\<lambda>k. 0) = Inr ([[0, 1], [0, 1]], rng_drop 11 (\<lambda>k. 0))
   \<and> [[0, 1 :: int]] \<noteq> [] \<and> length [[0, 1 :: int]] = 1
   \<and> SelectParents [[0, 1]] (\<lambda>k. k) = Inr ([[0, 1], [0, 1]], rng_drop 11 (\<lambda>k. k))"
  using SelectParents_two_parents[of "[[0, 1], [1, 0]]" "\<lambda>k. 0"]
        SelectParents_two_parents[of "[[0, 1]]" "\<lambda>k. k"]
  by auto

section \<open>The chromosome invariant of the operators\<close>

lemma valid_chromosome_fun:
  "valid_chromosome solver
     = (\<lambda>c. length c = NodeCount (Graph solver) \<and> genes_in_range (NumColors solver) c)"
  by (rule ext) (simp add: valid_chromosome_def)

lemma Intn_in_range:
  "1 \<le> nc \<Longrightarrow> \<exists>v. Intn nc rs = Inr (v, rng_drop 1 rs) \<and> 0 \<le> v \<and> v < nc"
  by (simp add: Intn_def)

lemma random_chromosome_total:
  assumes "n = 0 \<or> 1 \<le> nc"
  shows "\<exists>chr rs'. random_chromosome nc n rs = Inr (chr, rs')
            \<and> length chr = n \<and> genes_in_range nc chr"
  using assms
proof (induction n arbitrary: rs)
  case 0
  then show ?case by (simp add: genes_in_range_def)
next
  case (Suc n)
  then have nc: "1 \<le> nc" by simp
  obtain v where v: "Intn nc rs = Inr (v, rng_drop 1 rs)" "0 \<le> v" "v < nc"
    using Intn_in_range[OF nc, of rs] by blast
  obtain chr rs' where r: "random_chromosome nc n (rng_drop 1 rs) = Inr (chr, rs')"
      "length chr = n" "genes_in_range nc chr"
    using Suc.IH[of "rng_drop 1 rs"] nc by blast
  show ?case using v r by (simp add: genes_in_range_def)
qed

lemma random_population_loop_total:
  assumes "n = 0 \<or> 1 \<le> nc"
  shows "\<exists>pop rs'. random_population_loop nc n m rs = Inr (pop, rs')
            \<and> length pop = m \<and> list_all (\<lambda>c. length c = n \<and> genes_in_range nc c) pop"
proof (induction m arbitrary: rs)
  case 0
  then show ?case by simp
next
  case (Suc m)
  obtain chr rs1 where c: "random_chromosome nc n rs = Inr (chr, rs1)"
      "length chr = n" "genes_in_range nc chr"
    using random_chromosome_total[OF assms, of rs] by blast
  obtain pop rs' where r: "random_population_loop nc n m rs1 = Inr (pop, rs')"
      "length pop = m" "list_all (\<lambda>c. length c = n \<and> genes_in_range nc c) pop"
    using Suc.IH[of rs1] by blast
  show ?case using c r by simp
qed

lemma RandomPopulation_total:
  assumes "NodeCount (Graph solver) = 0 \<or> 1 \<le> NumColors solver" "0 \<le> popSize"
  shows "\<exists>pop rs'. RandomPopulation solver popSize rs = Inr (pop, rs')
            \<and> length pop = nat popSize \<and> list_all (valid_chromosome solver) pop"
  using random_population_loop_total[OF assms(1), of "nat popSize" rs] assms(2)
  by (simp add: RandomPopulation_def valid_chromosome_fun)

lemma genes_in_range_update:
  "genes_in_range nc c \<Longrightarrow> 0 \<le> v \<Longrightarrow> v < nc \<Longrightarrow> genes_in_range nc (c[i := v])"
  unfolding genes_in_range_def list_all_iff
  using set_update_subset_insert[of c i v] by auto

lemma mutate_loop_total:
  assumes "length child = 0 \<or> 1 \<le> nc" "genes_in_range nc child"
  shows "\<exists>m rs'. mutate_loop nc child i rs = Inr (m, rs')
            \<and> length m = length child \<and> genes_in_range nc m"
  using assms
proof (induction "length child - i" arbitrary: child i rs)
  case 0
  then show ?case by (simp add: mutate_loop.simps)
next
  case (Suc k)
  then have lt: "i < length child" and nc: "1 \<le> nc" by auto
  have k: "k = length child - Suc i" using Suc.hyps(2) by simp
  show ?case
  proof (cases "fst (Float32_below_inverse (length child) rs)")
    case False
    then have "mutate_loop nc child i rs = mutate_loop nc child (Suc i) (rng_drop 1 rs)"
      using lt by (subst mutate_loop.simps) (simp add: Float32_below_inverse_def)
    then show ?thesis using Suc.hyps(1)[OF k, of "rng_drop 1 rs"] Suc.prems by simp
  next
    case True
    obtain v where v: "Intn nc (rng_drop 1 rs) = Inr (v, rng_drop 1 (rng_drop 1 rs))"
        "0 \<le> v" "v < nc"
      using Intn_in_range[OF nc] by blast
    have "mutate_loop nc child i rs
            = mutate_loop nc (child[i := v]) (Suc i) (rng_drop 1 (rng_drop 1 rs))"
      using lt True v(1) by (subst mutate_loop.simps) (simp add: Float32_below_inverse_def)
    moreover have "\<exists>m rs'. mutate_loop nc (child[i := v]) (Suc i) (rng_drop 1 (rng_drop 1 rs))
                      = Inr (m, rs') \<and> length m = length (child[i := v]) \<and> genes_in_range nc m"
      using k nc genes_in_range_update[OF Suc.prems(2) v(2,3)]
      by (intro Suc.hyps(1)) simp_all
    ultimately show ?thesis by simp
  qed
qed

lemma Mutate_total:
  assumes "length child = 0 \<or> 1 \<le> NumColors solver" "genes_in_range (NumColors solver) child"
  shows "\<exists>m rs'. Mutate solver child rs = Inr (m, rs')
            \<and> length m = length child \<and> genes_in_range (NumColors solver) m"
  unfolding Mutate_def using mutate_loop_total[OF assms] .

lemma blockwise_offspring_valid:
  assumes "\<forall>p\<in>set parents. length p = L \<and> genes_in_range nc p"
    and "\<forall>k. choice k < length parents"
  shows "length (blockwise_offspring parents L blockSize choice) = L
         \<and> genes_in_range nc (blockwise_offspring parents L blockSize choice)"
proof -
  have "0 \<le> parents ! choice (i div blockSize) ! i \<and> parents ! choice (i div blockSize) ! i < nc"
    if "i < L" for i
  proof -
    have "parents ! choice (i div blockSize) \<in> set parents" using assms(2) by simp
    then have "length (parents ! choice (i div blockSize)) = L"
      and "genes_in_range nc (parents ! choice (i div blockSize))"
      using assms(1) by blast+
    then show ?thesis using that by (simp add: genes_in_range_def list_all_length)
  qed
  then show ?thesis
    by (simp add: blockwise_offspring_def genes_in_range_def list_all_iff)
qed

lemma Crossover_total:
  assumes ne: "parents \<noteq> []"
    and valid: "\<forall>p\<in>set parents. length p = L \<and> genes_in_range nc p"
    and size: "L = 0 \<or> length parents \<le> L"
  shows "\<exists>child rs'. Crossover parents rs = Some (Inr (child, rs'))
            \<and> length child = L \<and> genes_in_range nc child"
proof (cases "L = 0")
  case True
  then have "length (parents ! 0) = 0" using ne valid by simp
  then show ?thesis using Crossover_empty_genome[OF ne, of rs] True
    by (simp add: genes_in_range_def)
next
  case False
  then have le: "length parents \<le> L" using size by simp
  have len: "\<forall>p\<in>set parents. length p = L" using valid by simp
  have ch: "\<forall>k. rs k mod length parents < length parents" using ne by simp
  show ?thesis
    using Crossover_blocks[OF ne len le, of rs]
      blockwise_offspring_valid[OF valid ch, of "L div length parents"]
    by simp
qed

lemma Crossover_returns_valid:
  assumes valid: "\<forall>p\<in>set parents. length p = L \<and> genes_in_range nc p"
    and ret: "Crossover parents rs = Some (Inr (child, rs'))"
  shows "length child = L \<and> genes_in_range nc child"
proof (cases "parents = []")
  case True
  then show ?thesis using ret by (simp add: Crossover_def index_def)
next
  case ne: False
  then have first: "length (parents ! 0) = L" using valid by simp
  show ?thesis
  proof (cases "L = 0 \<or> length parents \<le> L")
    case True
    then show ?thesis using Crossover_total[OF ne valid True, of rs] ret by auto
  next
    case False
    then have "Crossover parents rs = None"
      using first by (intro Crossover_diverges) simp_all
    then show ?thesis using ret by simp
  qed
qed

text \<open>
  Claim C9. With \<open>numColors \<ge> 1\<close>: \<open>RandomPopulation\<close> returns \<open>popSize\<close>
  chromosomes that all have length \<open>nodeCount\<close> and genes in \<open>[0, numColors)\<close>; every
  chromosome \<open>Crossover\<close> returns for parents with this property has it; \<open>Mutate\<close>
  returns, for a chromosome with this property, a chromosome with it.
\<close>

theorem produced_chromosomes_valid:
  assumes "1 \<le> NumColors solver"
  shows "(0 \<le> popSize \<longrightarrow>
            (\<exists>pop rs'. RandomPopulation solver popSize rs = Inr (pop, rs')
                \<and> length pop = nat popSize \<and> list_all (valid_chromosome solver) pop))
         \<and> (list_all (valid_chromosome solver) parents \<longrightarrow>
              (\<forall>child rs'. Crossover parents rs = Some (Inr (child, rs'))
                  \<longrightarrow> valid_chromosome solver child))
         \<and> (valid_chromosome solver c \<longrightarrow>
              (\<exists>m rs'. Mutate solver c rs = Inr (m, rs') \<and> valid_chromosome solver m))"
proof (intro conjI impI allI)
  assume "0 \<le> popSize"
  then show "\<exists>pop rs'. RandomPopulation solver popSize rs = Inr (pop, rs')
                \<and> length pop = nat popSize \<and> list_all (valid_chromosome solver) pop"
    using assms by (intro RandomPopulation_total) simp_all
next
  fix child rs'
  assume "list_all (valid_chromosome solver) parents"
    and "Crossover parents rs = Some (Inr (child, rs'))"
  then show "valid_chromosome solver child"
    using Crossover_returns_valid[of parents "NodeCount (Graph solver)" "NumColors solver" rs child rs']
    by (simp add: valid_chromosome_def list_all_iff)
next
  assume "valid_chromosome solver c"
  then show "\<exists>m rs'. Mutate solver c rs = Inr (m, rs') \<and> valid_chromosome solver m"
    using assms Mutate_total[of c solver rs] by (auto simp: valid_chromosome_def)
qed

theorem produced_chromosomes_valid_witness:
  "1 \<le> NumColors \<lparr>Graph = \<lparr>AdjecencyList = [[1], [0]], Colors = [0, 0]\<rparr>, NumColors = 2\<rparr>
   \<and> (0::int) \<le> 1
   \<and> RandomPopulation \<lparr>Graph = \<lparr>AdjecencyList = [[1], [0]], Colors = [0, 0]\<rparr>, NumColors = 2\<rparr>
         1 (\<lambda>k. 0) = Inr ([[0, 0]], \<lambda>k. 0)
   \<and> list_all (valid_chromosome \<lparr>Graph = \<lparr>AdjecencyList = [[1], [0]], Colors = [0, 0]\<rparr>, NumColors = 2\<rparr>)
         [[0, 1], [1, 0]]
   \<and> Crossover [[0, 1], [1, 0]] (\<lambda>k. 0) = Some (Inr ([0, 1], \<lambda>k. 0))
   \<and> valid_chromosome \<lparr>Graph = \<lparr>AdjecencyList = [[1], [0]], Colors = [0, 0]\<rparr>, NumColors = 2\<rparr>
         [0, 1]
   \<and> Mutate \<lparr>Graph = \<lparr>AdjecencyList = [[1], [0]], Colors = [0, 0]\<rparr>, NumColors = 2\<rparr>
         [0, 1] (\<lambda>k. 0) = Inr ([0, 0], \<lambda>k. 0)
   \<and> valid_chromosome \<lparr>Graph = \<lparr>AdjecencyList = [[1], [0]], Colors = [0, 0]\<rparr>, NumColors = 2\<rparr>
         [0, 0]"
  using produced_chromosomes_valid
          [of "\<lparr>Graph = \<lparr>AdjecencyList = [[1], [0]], Colors = [0, 0]\<rparr>, NumColors = 2\<rparr>"
              1 "\<lambda>k. 0" "[[0, 1], [1, 0]]" "[0, 1]"]
  by (simp add: valid_chromosome_def genes_in_range_def RandomPopulation_def Crossover_def
      crossover_loop.simps copy_block.simps Mutate_def mutate_loop.simps index_def Intn_def
      Float32_below_inverse_def rng_drop_def NodeCount_def)

section \<open>Properties of Solve\<close>

lemma SelectParents_members:
  assumes "population \<noteq> []"
  shows "\<exists>a b rs'. SelectParents population rs = Inr ([a, b], rs')
            \<and> a \<in> set population \<and> b \<in> set population"
proof -
  have "rs k mod length population < length population" for k using assms by simp
  then have "population ! (rs k mod length population) \<in> set population" for k
    by (rule nth_mem)
  then show ?thesis using SelectParents_draws[OF assms, of rs] by blast
qed

lemma children_loop_no_edges:
  assumes ne: "population \<noteq> []"
    and valid: "\<forall>c\<in>set population. valid_chromosome solver c"
    and size: "NodeCount (Graph solver) = 0
               \<or> (2 \<le> NodeCount (Graph solver) \<and> 1 \<le> NumColors solver)"
    and edges: "no_edges (Graph solver)"
  shows "\<exists>new rs'. children_loop solver population i m scored rs = Some (Inr (scored @ new, rs'))
            \<and> length new = m - i \<and> (\<forall>sc\<in>set new. score sc = 0)"
proof (induction "m - i" arbitrary: i scored rs)
  case 0
  then show ?case by (simp add: children_loop.simps)
next
  case (Suc k)
  then have lt: "i < m" by simp
  have k: "k = m - Suc i" using Suc.hyps(2) by simp
  obtain a b rs1 where sel: "SelectParents population rs = Inr ([a, b], rs1)"
      and ab: "a \<in> set population" "b \<in> set population"
    using SelectParents_members[OF ne, of rs] by blast
  have pv: "\<forall>p\<in>set [a, b]. length p = NodeCount (Graph solver)
                \<and> genes_in_range (NumColors solver) p"
    using ab valid by (simp add: valid_chromosome_def)
  have sz: "NodeCount (Graph solver) = 0 \<or> length [a, b] \<le> NodeCount (Graph solver)"
    using size by auto
  obtain child rs2 where cr: "Crossover [a, b] rs1 = Some (Inr (child, rs2))"
      and cv: "length child = NodeCount (Graph solver)" "genes_in_range (NumColors solver) child"
    using Crossover_total[OF _ pv sz, of rs1] by auto
  have "length child = 0 \<or> 1 \<le> NumColors solver" using size cv(1) by auto
  from Mutate_total[OF this cv(2), of rs2]
  obtain mc rs3 where mu: "Mutate solver child rs2 = Inr (mc, rs3)" by blast
  have fit: "CalculateFitness (Graph solver) mc = Inr 0"
    using edges by (rule CalculateFitness_no_edges)
  obtain new rs' where rec:
      "children_loop solver population (Suc i) m
         (scored @ [\<lparr>chromosome = mc, score = 0\<rparr>]) rs3
         = Some (Inr ((scored @ [\<lparr>chromosome = mc, score = 0\<rparr>]) @ new, rs'))"
      "length new = m - Suc i" "\<forall>sc\<in>set new. score sc = 0"
    using Suc.hyps(1)[OF k] by blast
  have "children_loop solver population i m scored rs
          = Some (Inr (scored @ (\<lparr>chromosome = mc, score = 0\<rparr> # new), rs'))"
    using lt sel cr mu fit rec(1) by (subst children_loop.simps) simp
  moreover have "length (\<lparr>chromosome = mc, score = 0\<rparr> # new) = m - i"
    using rec(2) lt by simp
  moreover have "\<forall>sc\<in>set (\<lparr>chromosome = mc, score = 0\<rparr> # new). score sc = 0"
    using rec(3) by simp
  ultimately show ?case by blast
qed

lemma replace_loop_total:
  assumes "popSize \<le> length scored" "popSize \<le> length population"
  shows "\<exists>pop'. replace_loop population scored i popSize = Inr pop'
            \<and> length pop' = length population"
  using assms
proof (induction "popSize - i" arbitrary: i population)
  case 0
  then show ?case by (simp add: replace_loop.simps)
next
  case (Suc k)
  then have lt: "i < popSize" by simp
  have k: "k = popSize - Suc i" using Suc.hyps(2) by simp
  have "replace_loop population scored i popSize
          = replace_loop (population[i := chromosome (scored ! i)]) scored (Suc i) popSize"
    using lt Suc.prems by (subst replace_loop.simps) (simp add: index_def)
  then show ?case
    using Suc.hyps(1)[OF k, of "population[i := chromosome (scored ! i)]"] Suc.prems by simp
qed

lemma sorts_by_score_props:
  assumes "sorts_by_score srt"
  shows "length (srt xs) = length xs" and "set (srt xs) = set xs"
proof -
  have m: "mset (srt xs) = mset xs" using assms by (simp add: sorts_by_score_def)
  show "length (srt xs) = length xs" using m by (rule mset_eq_length)
  show "set (srt xs) = set xs" using m by (rule mset_eq_setD)
qed

lemma generation_no_edges:
  assumes srt: "sorts_by_score srt"
    and len: "length population = popSize" "0 < popSize"
    and valid: "\<forall>c\<in>set population. valid_chromosome solver c"
    and size: "NodeCount (Graph solver) = 0
               \<or> (2 \<le> NodeCount (Graph solver) \<and> 1 \<le> NumColors solver)"
    and edges: "no_edges (Graph solver)"
  shows "\<exists>pop' rs'. generation srt solver popSize population rs = Some (Inr (pop', 0, rs'))
            \<and> length pop' = popSize"
proof -
  have ne: "population \<noteq> []" using len by auto
  obtain new rs' where ch:
      "children_loop solver population 0 (2 * popSize) [] rs = Some (Inr (new, rs'))"
      "length new = 2 * popSize" "\<forall>sc\<in>set new. score sc = 0"
    using children_loop_no_edges[OF ne valid size edges, of 0 "2 * popSize" "[]" rs] by auto
  have sl: "length (srt new) = 2 * popSize" and ss: "\<forall>sc\<in>set (srt new). score sc = 0"
    using sorts_by_score_props[OF srt, of new] ch(2,3) by simp_all
  obtain pop' where rp: "replace_loop population (srt new) 0 popSize = Inr pop'"
      "length pop' = length population"
    using replace_loop_total[of popSize "srt new" population 0] sl len by auto
  have "srt new ! 0 \<in> set (srt new)" using sl len(2) by (intro nth_mem) simp
  then have best: "score (srt new ! 0) = 0" using ss by blast
  have idx: "index (srt new) 0 = Inr (srt new ! 0)" using sl len(2) by (simp add: index_def)
  show ?thesis
    using ch(1) rp idx best len(1) by (simp add: generation_def Let_def)
qed

lemma Solve_no_edges:
  assumes srt: "sorts_by_score srt"
    and edges: "no_edges (Graph solver)"
    and size: "NodeCount (Graph solver) = 0
               \<or> (2 \<le> NodeCount (Graph solver) \<and> 1 \<le> NumColors solver)"
    and pop: "1 \<le> popSize" and iters: "1 \<le> numIterations"
  shows "\<exists>pop0 rs0 pop1 rs1.
           RandomPopulation solver popSize rs = Inr (pop0, rs0)
         \<and> generation srt solver (nat popSize) pop0 rs0 = Some (Inr (pop1, 0, rs1))
         \<and> final_population srt solver numIterations popSize rs = Some (Inr (pop1, rs1))
         \<and> pop1 \<noteq> []
         \<and> Solve srt solver numIterations popSize rs
             = Some (Inr \<lparr>Coloring = pop1 ! 0, Score = 0\<rparr>)"
proof -
  have size': "NodeCount (Graph solver) = 0 \<or> 1 \<le> NumColors solver" using size by auto
  obtain pop0 rs0 where rp: "RandomPopulation solver popSize rs = Inr (pop0, rs0)"
      "length pop0 = nat popSize" "list_all (valid_chromosome solver) pop0"
    using RandomPopulation_total[OF size', of popSize rs] pop by auto
  have v: "\<forall>c\<in>set pop0. valid_chromosome solver c" using rp(3) by (simp add: list_all_iff)
  obtain pop1 rs1 where gen:
      "generation srt solver (nat popSize) pop0 rs0 = Some (Inr (pop1, 0, rs1))"
      "length pop1 = nat popSize"
    using generation_no_edges[OF srt rp(2) _ v size edges, of rs0] pop by auto
  have ne: "pop1 \<noteq> []" using gen(2) pop by auto
  have loop: "solve_loop srt solver numIterations (nat popSize) 0 pop0 rs0 = Some (Inr (pop1, rs1))"
    using iters gen(1) by (subst solve_loop.simps) simp
  have fin: "final_population srt solver numIterations popSize rs = Some (Inr (pop1, rs1))"
    using rp(1) loop by (simp add: final_population_def)
  have "Solve srt solver numIterations popSize rs = Some (Inr \<lparr>Coloring = pop1 ! 0, Score = 0\<rparr>)"
    using fin ne CalculateFitness_no_edges[OF edges, of "pop1 ! 0"]
    by (simp add: Solve_def index_def)
  then show ?thesis using rp(1) gen(1) fin ne by blast
qed

lemma sorts_by_score_sort_key: "sorts_by_score (sort_key score)"
  by (simp add: sorts_by_score_def)

lemma draw_parent_numeral:
  "draw_parent (numeral v) popSize usedParents parentIndex rs =
     (case Intn (int popSize) rs of
        Inl e \<Rightarrow> Inl e
      | Inr (drawn, rs') \<Rightarrow>
          if drawn \<notin> usedParents then Inr (drawn, insert drawn usedParents, rs')
          else draw_parent (pred_numeral v) popSize usedParents drawn rs')"
  by (simp add: numeral_eq_Suc)

lemma select_loop_numeral:
  "select_loop (numeral v) population usedParents parents rs =
     (case draw_parent 10 (length population) usedParents 0 rs of
        Inl e \<Rightarrow> Inl e
      | Inr (parentIndex, usedParents', rs') \<Rightarrow>
          (case index population parentIndex of
             Inl e \<Rightarrow> Inl e
           | Inr p \<Rightarrow> select_loop (pred_numeral v) population usedParents' (parents @ [p]) rs'))"
  by (simp add: numeral_eq_Suc)

text \<open>
  Claim C6. Whenever \<open>Solve\<close> returns a solution, its \<open>Coloring\<close> is element 0 of the
  population the iteration loop left behind and its \<open>Score\<close> is \<open>CalculateFitness\<close> of
  that chromosome, computed at the return; so a score is returned even when
  \<open>numIterations \<le> 0\<close>, where no generation was evaluated and the population is the
  initial random one.
\<close>

theorem Solve_returns_recomputed_fitness:
  assumes "Solve srt solver numIterations popSize rs = Some (Inr sol)"
  shows "\<exists>population rs'.
           final_population srt solver numIterations popSize rs = Some (Inr (population, rs'))
         \<and> index population 0 = Inr (Coloring sol)
         \<and> CalculateFitness (Graph solver) (Coloring sol) = Inr (Score sol)
         \<and> (numIterations \<le> 0 \<longrightarrow> RandomPopulation solver popSize rs = Inr (population, rs'))"
proof -
  obtain population rs' where fin:
      "final_population srt solver numIterations popSize rs = Some (Inr (population, rs'))"
    using assms by (auto simp: Solve_def split: option.splits sum.splits)
  obtain best where best: "index population 0 = Inr best"
    using assms fin by (auto simp: Solve_def split: sum.splits)
  obtain s where s: "CalculateFitness (Graph solver) best = Inr s"
    using assms fin best by (auto simp: Solve_def split: sum.splits)
  have sol: "sol = \<lparr>Coloring = best, Score = s\<rparr>"
    using assms fin best s by (simp add: Solve_def)
  have "RandomPopulation solver popSize rs = Inr (population, rs')" if "numIterations \<le> 0"
    using fin that
    by (auto simp: final_population_def solve_loop.simps[of _ _ numIterations] split: sum.splits)
  then show ?thesis using fin best s sol by auto
qed

theorem Solve_returns_recomputed_fitness_witness:
  "Solve (sort_key score)
         \<lparr>Graph = \<lparr>AdjecencyList = [[1], [0]], Colors = [0, 0]\<rparr>, NumColors = 2\<rparr> 1 1 (\<lambda>k. k)
       = Some (Inr \<lparr>Coloring = [0, 0], Score = 1\<rparr>)
   \<and> (\<exists>population rs'.
           final_population (sort_key score)
             \<lparr>Graph = \<lparr>AdjecencyList = [[1], [0]], Colors = [0, 0]\<rparr>, NumColors = 2\<rparr> 1 1 (\<lambda>k. k)
             = Some (Inr (population, rs'))
         \<and> index population 0 = Inr [0, 0])
   \<and> CalculateFitness \<lparr>AdjecencyList = [[1], [0]], Colors = [0, 0]\<rparr> [0, 0] = Inr 1"
proof -
  have run: "Solve (sort_key score)
         \<lparr>Graph = \<lparr>AdjecencyList = [[1], [0]], Colors = [0, 0]\<rparr>, NumColors = 2\<rparr> 1 1 (\<lambda>k. k)
       = Some (Inr \<lparr>Coloring = [0, 0], Score = 1\<rparr>)"
    by (simp add: Solve_def final_population_def RandomPopulation_def solve_loop.simps
        generation_def children_loop.simps SelectParents_def Crossover_def crossover_loop.simps
        copy_block.simps Mutate_def mutate_loop.simps CalculateFitness_def fitness_loop.simps
        replace_loop.simps index_def Intn_def Float32_below_inverse_def rng_drop_def
        NodeCount_def draw_parent_numeral select_loop_numeral signed_divide_int_def)
  show ?thesis
    using run Solve_returns_recomputed_fitness[OF run] by auto
qed

text \<open>
  Claim C7, as stated, fails: on a graph with two nodes and no edges \<open>Solve\<close> panics
  with \<open>popSize = 0\<close> (\<open>scoredPopulation[0]\<close> of an empty slice) and with
  \<open>numColors = 0\<close> (\<open>rand.Intn(0)\<close>).
\<close>

theorem Solve_no_edges_panics:
  "no_edges \<lparr>AdjecencyList = [[], []], Colors = [0, 0]\<rparr>
   \<and> Solve (sort_key score)
         \<lparr>Graph = \<lparr>AdjecencyList = [[], []], Colors = [0, 0]\<rparr>, NumColors = 2\<rparr> 1 0 (\<lambda>k. k)
       = Some (Inl IndexOutOfRange)
   \<and> Solve (sort_key score)
         \<lparr>Graph = \<lparr>AdjecencyList = [[], []], Colors = [0, 0]\<rparr>, NumColors = 0\<rparr> 1 1 (\<lambda>k. k)
       = Some (Inl InvalidIntnArgument)"
  by (simp add: Solve_def final_population_def RandomPopulation_def solve_loop.simps
        generation_def children_loop.simps SelectParents_def Crossover_def crossover_loop.simps
        copy_block.simps Mutate_def mutate_loop.simps CalculateFitness_def fitness_loop.simps
        replace_loop.simps index_def Intn_def Float32_below_inverse_def rng_drop_def
        NodeCount_def draw_parent_numeral select_loop_numeral signed_divide_int_def no_edges_def)

text \<open>
  Claim C7, amended. On a graph with no edges whose node count is 0, or at least 2 with
  \<open>numColors \<ge> 1\<close>, and for \<open>popSize \<ge> 1\<close> and \<open>numIterations \<ge> 1\<close>, \<open>Solve\<close>
  returns: the first generation has \<open>bestScore = 0\<close>, the loop is left in iteration 0
  with the population of that generation, and the solution has \<open>Score\<close> 0.
\<close>

theorem Solve_no_edges_first_iteration:
  assumes "no_edges (Graph solver)"
    and "NodeCount (Graph solver) = 0 \<or> (2 \<le> NodeCount (Graph solver) \<and> 1 \<le> NumColors solver)"
    and "1 \<le> popSize" and "1 \<le> numIterations"
    and "sorts_by_score srt"
  shows "\<exists>pop0 rs0 pop1 rs1.
           RandomPopulation solver popSize rs = Inr (pop0, rs0)
         \<and> generation srt solver (nat popSize) pop0 rs0 = Some (Inr (pop1, 0, rs1))
         \<and> final_population srt solver numIterations popSize rs = Some (Inr (pop1, rs1))
         \<and> pop1 \<noteq> []
         \<and> Solve srt solver numIterations popSize rs
             = Some (Inr \<lparr>Coloring = pop1 ! 0, Score = 0\<rparr>)"
  using assms(5,1,2,3,4) by (rule Solve_no_edges)

theorem Solve_no_edges_first_iteration_witness:
  "no_edges (Graph \<lparr>Graph = \<lparr>AdjecencyList = [[], []], Colors = [0, 0]\<rparr>, NumColors = 2\<rparr>)
   \<and> 2 \<le> NodeCount (Graph \<lparr>Graph = \<lparr>AdjecencyList = [[], []], Colors = [0, 0]\<rparr>, NumColors = 2\<rparr>)
   \<and> 1 \<le> NumColors \<lparr>Graph = \<lparr>AdjecencyList = [[], []], Colors = [0, 0]\<rparr>, NumColors = 2\<rparr>
   \<and> (1::int) \<le> 1 \<and> (1::int) \<le> 5
   \<and> sorts_by_score (sort_key score)
   \<and> Solve (sort_key score)
         \<lparr>Graph = \<lparr>AdjecencyList = [[], []], Colors = [0, 0]\<rparr>, NumColors = 2\<rparr> 5 1 (\<lambda>k. k)
       = Some (Inr \<lparr>Coloring = [0, 0], Score = 0\<rparr>)"
proof -
  let ?S = "\<lparr>Graph = \<lparr>AdjecencyList = [[], []], Colors = [0, 0]\<rparr>, NumColors = 2\<rparr>"
  have e: "no_edges (Graph ?S)" by (simp add: no_edges_def)
  have n: "NodeCount (Graph ?S) = 0 \<or> (2 \<le> NodeCount (Graph ?S) \<and> 1 \<le> NumColors ?S)"
    by (simp add: NodeCount_def)
  have s: "sorts_by_score (sort_key score)" by (rule sorts_by_score_sort_key)
  have run: "Solve (sort_key score) ?S 5 1 (\<lambda>k. k)
               = Some (Inr \<lparr>Coloring = [0, 0], Score = 0\<rparr>)"
    by (simp add: Solve_def final_population_def RandomPopulation_def solve_loop.simps
        generation_def children_loop.simps SelectParents_def Crossover_def crossover_loop.simps
        copy_block.simps Mutate_def mutate_loop.simps CalculateFitness_def fitness_loop.simps
        replace_loop.simps index_def Intn_def Float32_below_inverse_def rng_drop_def
        NodeCount_def draw_parent_numeral select_loop_numeral signed_divide_int_def)
  show ?thesis
    using e n s run Solve_no_edges_first_iteration[OF e n _ _ s, of 1 5 "\<lambda>k. k"]
    by (simp add: NodeCount_def)
qed

section \<open>Properties of the graph files\<close>

text \<open>
  Claim C8. A problem line with two tokens only: \<open>tokens[2]\<close> is read before any
  parsing, and \<open>LoadGraph\<close> panics with an index out of range instead of returning an
  error, whatever \<open>ParseInt\<close> does.
\<close>

theorem LoadGraph_missing_token_panics:
  "LoadGraph ParseInt (Inr ''p edge'') = Inl IndexOutOfRange"
  by (simp add: LoadGraph_def index_def)

lemma WriteString_ok: "WriteString (\<lambda>k. None) st s = (None, (Suc (fst st), snd st @ [s]))"
  by (simp add: WriteString_def)

lemma write_edges_ok: "\<exists>st1. write_edges (\<lambda>k. None) i js st = (None, st1)"
  by (induction js arbitrary: st) (simp_all add: WriteString_ok)

lemma write_all_edges_ok: "\<exists>st1. write_all_edges (\<lambda>k. None) g i st = (None, st1)"
proof (induction "NodeCount g - i" arbitrary: i st)
  case 0
  then show ?case by (simp add: write_all_edges.simps)
next
  case (Suc k)
  then have lt: "i < NodeCount g" by simp
  have k: "k = NodeCount g - Suc i" using Suc.hyps(2) by simp
  obtain st1 where e: "write_edges (\<lambda>k. None) i (AdjecencyList g ! i) st = (None, st1)"
    using write_edges_ok by blast
  show ?case using lt e Suc.hyps(1)[OF k, of st1]
    by (subst write_all_edges.simps) simp
qed

lemma write_styles_ok:
  assumes "NodeCount g \<le> length (Colors g)"
  shows "\<exists>st1. write_styles writes g i st = Inr st1"
proof (induction "NodeCount g - i" arbitrary: i st)
  case 0
  then show ?case by (simp add: write_styles.simps)
next
  case (Suc k)
  then have lt: "i < NodeCount g" by simp
  have k: "k = NodeCount g - Suc i" using Suc.hyps(2) by simp
  have idx: "index (Colors g) (int i) = Inr (Colors g ! i)"
    using lt assms by (simp add: index_def)
  show ?case using lt idx Suc.hyps(1)[OF k]
    by (subst write_styles.simps) simp
qed

lemma SaveGraphViz_all_ok:
  assumes "NodeCount g \<le> length (Colors g)"
  shows "\<exists>out. SaveGraphViz g None (\<lambda>k. None) = Inr (None, out)"
proof -
  obtain st1 where a: "write_all_edges (\<lambda>k. None) g 0
         (Suc 0, [''graph {'' @ [CHR 0x0A, CHR 0x09] @ ''node [colorscheme=accent8]''
                    @ [CHR 0x0A]])
         = (None, st1)"
    using write_all_edges_ok by blast
  obtain st2 where b: "write_styles (\<lambda>k. None) g 0 st1 = Inr st2"
    using write_styles_ok[OF assms] by blast
  show ?thesis using a b by (simp add: SaveGraphViz_def WriteString_ok)
qed

text \<open>
  Claim C10. When the file cannot be opened, \<open>SaveGraphViz\<close> writes nothing and returns
  \<open>nil\<close>, the open error dropped; \<open>nil\<close> is also what it returns when the file opens
  and every write succeeds (on a graph with a color for every node), so the result does
  not tell the two apart.
\<close>

theorem SaveGraphViz_swallows_open_failure:
  "SaveGraphViz g (Some err) writes = Inr (None, [])
   \<and> (NodeCount g \<le> length (Colors g) \<longrightarrow>
        (\<exists>out. SaveGraphViz g None (\<lambda>k. None) = Inr (None, out)))"
  using SaveGraphViz_all_ok[of g] by (simp add: SaveGraphViz_def)

theorem SaveGraphViz_swallows_open_failure_witness:
  "SaveGraphViz \<lparr>AdjecencyList = [[1], []], Colors = [0, 2]\<rparr>
       (Some (GoError ''permission denied'')) (\<lambda>k. None) = Inr (None, [])
   \<and> NodeCount \<lparr>AdjecencyList = [[1], []], Colors = [0, 2]\<rparr>
        \<le> length (Colors \<lparr>AdjecencyList = [[1], []], Colors = [0, 2]\<rparr>)
   \<and> SaveGraphViz \<lparr>AdjecencyList = [[1], []], Colors = [0, 2]\<rparr> None (\<lambda>k. None)
       = Inr (None,
              [''graph {'' @ [CHR 0x0A, CHR 0x09] @ ''node [colorscheme=accent8]'' @ [CHR 0x0A],
               CHR 0x09 # ''0 -- 1'' @ [CHR 0x0A],
               CHR 0x09 # ''0 [style=filled, color=1]'' @ [CHR 0x0A],
               CHR 0x09 # ''1 [style=filled, color=3]'' @ [CHR 0x0A],
               ''}'' @ [CHR 0x0A]])"
  using SaveGraphViz_swallows_open_failure
          [of "\<lparr>AdjecencyList = [[1], []], Colors = [0, 2]\<rparr>" "GoError ''permission denied''"
              "\<lambda>k. None"]
  by (simp add: SaveGraphViz_def WriteString_def write_all_edges.simps write_styles.simps
      NodeCount_def index_def show_int_def show_nat.simps digit_char_def)

end
